theory Spec2Isabelle
  imports Complex_Main "HOL-Library.Sublist" "HOL-Library.Log_Nat"
begin

section \<open>Time, clocks and errors\<close>

text \<open>
  A \<^verbatim>\<open>datetime\<close> has microsecond resolution and a \<^verbatim>\<open>timedelta\<close> is an exact number of
  microseconds, so both are integers here (microseconds). Comparison and subtraction of
  datetimes are then exact, as in Python.

  A float is the real number it denotes. The float operations of the rate computation
  (\<^verbatim>\<open>total_seconds()\<close>, the divisions, \<^verbatim>\<open>round\<close>) round their exact result to the nearest
  double, ties to even, as IEEE 754 and CPython do; the exponent range is taken as
  unbounded, the values of the program being far from overflow and underflow. The readings
  of \<^verbatim>\<open>time.time()\<close> and the thresholds of the health check are reals.

  \<^verbatim>\<open>datetime.now()\<close> is an effect: every call is a fresh reading of the wall clock. A
  clock is the sequence of its readings, and every function that reads it takes the number
  of readings made so far and returns the number made after it.
\<close>

type_synonym datetime = int
type_synonym timedelta = int
type_synonym clock = "nat \<Rightarrow> datetime"

datatype py_error = ZeroDivisionError

text \<open>To the nearest integer, ties to the even neighbour.\<close>

definition py_round :: "real \<Rightarrow> int" where
  "py_round x =
     (let f = \<lfloor>x\<rfloor>; d = x - of_int f in
      if d < 1 / 2 then f
      else if 1 / 2 < d then f + 1
      else if even f then f else f + 1)"

text \<open>
  The binary exponent of a positive real \<open>a\<close>: the \<open>e\<close> with \<open>2 powi e \<le> a < 2 powi (e + 1)\<close>,
  from the bit length of its integer part, or of its reciprocal's when \<open>a < 1\<close>.
\<close>

definition fl_exponent :: "real \<Rightarrow> int" where
  "fl_exponent a = (if 1 \<le> a then bitlen \<lfloor>a\<rfloor> - 1 else - bitlen (\<lceil>1 / a\<rceil> - 1))"

text \<open>The nearest double: 53 significant bits, ties to the even significand.\<close>

definition fl_round :: "real \<Rightarrow> real" where
  "fl_round x =
     (if x = 0 then 0
      else
        let a = \<bar>x\<bar>; u = 2 powi (fl_exponent a - 52)
        in sgn x * (of_int (py_round (a / u)) * u))"

text \<open>Float division; the caller tests the divisor for zero, as Python raises there.\<close>

definition fl_div :: "real \<Rightarrow> real \<Rightarrow> real" where
  "fl_div a b = fl_round (a / b)"

text \<open>
  \<^verbatim>\<open>timedelta.total_seconds()\<close>: the microseconds divided by a million, an integer true
  division, which is correctly rounded.
\<close>

definition total_seconds :: "timedelta \<Rightarrow> real" where
  "total_seconds td = fl_round (real_of_int td / 1000000)"

text \<open>
  \<^verbatim>\<open>round(x, 2)\<close> on a float: the exact value of \<open>x\<close> is rounded to two decimals, ties to
  even, and the decimal result is converted to the nearest double.
\<close>

definition py_round2 :: "real \<Rightarrow> real" where
  "py_round2 x = fl_round (of_int (py_round (x * 100)) / 100)"

section \<open>RateAverager\<close>

record RateAverager =
  events :: "datetime list"
  window :: timedelta
  last_total :: "int option"

text \<open>
  \<^verbatim>\<open>__init__(window_hours)\<close>: \<^verbatim>\<open>timedelta(hours=window_hours)\<close> rounds to the nearest
  microsecond, ties to even.
\<close>

definition RateAverager_init :: "real \<Rightarrow> RateAverager" where
  "RateAverager_init window_hours =
     \<lparr>events = [], window = py_round (window_hours * 3600000000), last_total = None\<rparr>"

text \<open>\<^verbatim>\<open>while self.events and self.events[0] < cutoff: self.events.popleft()\<close>\<close>

fun trim_loop :: "datetime \<Rightarrow> datetime list \<Rightarrow> datetime list" where
  "trim_loop cutoff [] = []"
| "trim_loop cutoff (e # es) = (if e < cutoff then trim_loop cutoff es else e # es)"

text \<open>\<^verbatim>\<open>_trim\<close>: one reading of the clock.\<close>

definition trim :: "clock \<Rightarrow> RateAverager \<times> nat \<Rightarrow> RateAverager \<times> nat" where
  "trim clk = (\<lambda>(ra, n).
     let cutoff = clk n - window ra
     in (ra\<lparr>events := trim_loop cutoff (events ra)\<rparr>, Suc n))"

text \<open>
  \<^verbatim>\<open>for _ in range(k): self.events.append(datetime.now())\<close>: one reading of the clock for
  every appended event.
\<close>

fun append_now :: "clock \<Rightarrow> nat \<Rightarrow> datetime list \<times> nat \<Rightarrow> datetime list \<times> nat" where
  "append_now clk 0 (es, n) = (es, n)"
| "append_now clk (Suc k) (es, n) = append_now clk k (es @ [clk n], Suc n)"

text \<open>
  \<^verbatim>\<open>update_from_total\<close>. The first observation returns before \<^verbatim>\<open>_trim\<close>. No statement
  of the method can raise: the subtraction and the comparison are between integers, and
  the queue is read only where it is not empty.
\<close>

definition update_from_total :: "clock \<Rightarrow> int \<Rightarrow> RateAverager \<times> nat \<Rightarrow> RateAverager \<times> nat" where
  "update_from_total clk total_count = (\<lambda>(ra, n).
     case last_total ra of
       None \<Rightarrow> (ra\<lparr>last_total := Some total_count\<rparr>, n)
     | Some lt \<Rightarrow>
         let (es, n1) =
               (if total_count > lt
                then append_now clk (nat (total_count - lt)) (events ra, n)
                else (events ra, n))
         in trim clk (ra\<lparr>events := es, last_total := Some total_count\<rparr>, n1))"

text \<open>
  \<^verbatim>\<open>hourly_rate\<close>. The division by \<^verbatim>\<open>hours\<close> raises when \<^verbatim>\<open>hours\<close> is zero; the division
  by \<^verbatim>\<open>elapsed_h\<close> is guarded. The event count is converted to a float before it is
  divided.
\<close>

definition hourly_rate :: "clock \<Rightarrow> RateAverager \<times> nat \<Rightarrow> py_error + (real \<times> RateAverager \<times> nat)" where
  "hourly_rate clk s =
     (let (ra, n) = trim clk s; len = length (events ra) in
      if len \<le> 1 then
        let hours = fl_div (total_seconds (window ra)) 3600 in
        if hours = 0 then Inl ZeroDivisionError
        else Inr (py_round2 (fl_div (fl_round (real len)) hours), ra, n)
      else
        let elapsed_h = fl_div (total_seconds (last (events ra) - hd (events ra))) 3600 in
        Inr (py_round2 (if elapsed_h > 0 then fl_div (fl_round (real len)) elapsed_h else 0),
             ra, n))"

text \<open>
  A sequence of calls of the two public methods, as a caller makes them; an exception ends
  the sequence.
\<close>

datatype ra_call = Update int | Rate

fun run_calls :: "clock \<Rightarrow> ra_call list \<Rightarrow> RateAverager \<times> nat \<Rightarrow> py_error + RateAverager \<times> nat" where
  "run_calls clk [] s = Inr s"
| "run_calls clk (Update t # cs) s = run_calls clk cs (update_from_total clk t s)"
| "run_calls clk (Rate # cs) s =
     (case hourly_rate clk s of Inl e \<Rightarrow> Inl e | Inr (r, s') \<Rightarrow> run_calls clk cs s')"

text \<open>
  The rate as the specification words it, on the retained events and in exact arithmetic,
  before any rounding: the event count over the window's hours when at most one event is
  retained, otherwise the event count over the hours elapsed between the oldest and the
  newest retained event, or 0 when no time elapsed.
\<close>

definition hours_of :: "timedelta \<Rightarrow> real" where
  "hours_of td = real_of_int td / 3600000000"

definition spec_hourly_rate :: "timedelta \<Rightarrow> datetime list \<Rightarrow> real" where
  "spec_hourly_rate w es =
     (let event_count = real (length es) in
      if length es \<le> 1 then event_count / hours_of w
      else
        let elapsed_hours = hours_of (Max (set es) - Min (set es))
        in if elapsed_hours = 0 then 0 else event_count / elapsed_hours)"

section \<open>The sample store\<close>

text \<open>
  The two tables of \<^verbatim>\<open>init_db\<close>, in insertion order. ISO timestamps are kept as the clock
  readings they print. A connection sees its own uncommitted rows; \<^verbatim>\<open>durable_jobs\<close> and
  \<^verbatim>\<open>durable_samples\<close> are what the file holds, which is what a reopened store shows.
\<close>

record job_row =
  j_id :: int
  j_name :: string
  j_started_at :: datetime

record sample_row =
  s_job_id :: int
  s_ts :: datetime
  s_accepted :: int
  s_rejected :: int
  s_total :: int
  s_rate :: real

record database =
  jobs :: "job_row list"
  samples :: "sample_row list"
  durable_jobs :: "job_row list"
  durable_samples :: "sample_row list"

definition commit :: "database \<Rightarrow> database" where
  "commit d = d\<lparr>durable_jobs := jobs d, durable_samples := samples d\<rparr>"

text \<open>\<^verbatim>\<open>init_db\<close> opens the file with the rows it holds; creating the tables adds no row.\<close>

definition init_db :: "job_row list \<Rightarrow> sample_row list \<Rightarrow> database" where
  "init_db js ss = commit \<lparr>jobs = js, samples = ss, durable_jobs = js, durable_samples = ss\<rparr>"

text \<open>\<^verbatim>\<open>INTEGER PRIMARY KEY AUTOINCREMENT\<close>: one more than the largest id, from 1.\<close>

definition next_job_id :: "job_row list \<Rightarrow> int" where
  "next_job_id js = fold max (map j_id js) 0 + 1"

section \<open>Dashboard\<close>

text \<open>
  The state of the main window that its slots compute with. Widgets (labels, combo box,
  plot curve, status tag, message boxes) are left out, except the health tag, whose text is
  a \<^verbatim>\<open>health_msg\<close> (the formatted threshold is its argument; \<^verbatim>\<open>NO CYCLES\<close> is the message
  of the cycle timeout) and whose colour is the flag. \<^verbatim>\<open>_pending\<close> is created on first
  use: \<^verbatim>\<open>None\<close> is the attribute not yet set.
\<close>

datatype health_msg = Msg_OK | Msg_DATA_TIMEOUT real | Msg_NO_CYCLES real

record vals =
  v_accepted :: int
  v_rejected :: int
  v_total :: int
  v_rate :: real

record Dashboard =
  db :: database
  current_job_id :: "int option"
  rate_calc :: RateAverager
  last_values :: vals
  last_data_ts :: "real option"
  last_cycle_ts :: "real option"
  prev_total :: "int option"
  pending :: "nat option"
  health_tag :: "health_msg \<times> bool"
  rate_history :: "real list"
  time_history :: "datetime list"

text \<open>\<^verbatim>\<open>append\<close> on a \<^verbatim>\<open>deque(maxlen=600)\<close>: the oldest entry leaves a full queue.\<close>

definition deque_append :: "'a list \<Rightarrow> 'a \<Rightarrow> 'a list" where
  "deque_append xs x = (let ys = xs @ [x] in drop (length ys - 600) ys)"

text \<open>\<^verbatim>\<open>update_plot\<close> reads the clock when there is a history to draw.\<close>

definition update_plot :: "clock \<Rightarrow> Dashboard \<times> nat \<Rightarrow> Dashboard \<times> nat" where
  "update_plot clk = (\<lambda>(st, n). if time_history st = [] then (st, n) else (st, Suc n))"

text \<open>
  \<^verbatim>\<open>load_job_data\<close>: the histories are refilled from the last 600 rows of the job, oldest
  first; every stored timestamp parses, so no row is skipped. SQL leaves the order of rows
  with equal \<^verbatim>\<open>ts\<close> open; they stay in insertion order here.
\<close>

definition load_job_data :: "clock \<Rightarrow> int \<Rightarrow> Dashboard \<times> nat \<Rightarrow> Dashboard \<times> nat" where
  "load_job_data clk jid = (\<lambda>(st, n).
     let rows = sort_key s_ts (filter (\<lambda>r. s_job_id r = jid) (samples (db st)));
         recent = drop (length rows - 600) rows
     in update_plot clk
          (st\<lparr>rate_history := map s_rate recent, time_history := map s_ts recent\<rparr>, n))"

text \<open>
  \<^verbatim>\<open>load_jobs\<close>: the job started last becomes current and its data is loaded. Rows with
  equal \<^verbatim>\<open>started_at\<close> stay in insertion order.
\<close>

definition load_jobs :: "clock \<Rightarrow> Dashboard \<times> nat \<Rightarrow> Dashboard \<times> nat" where
  "load_jobs clk = (\<lambda>(st, n).
     let rows = sort_key (\<lambda>j. - j_started_at j) (jobs (db st)) in
     case rows of
       [] \<Rightarrow> (st\<lparr>current_job_id := None\<rparr>, n)
     | r # _ \<Rightarrow> load_job_data clk (j_id r) (st\<lparr>current_job_id := Some (j_id r)\<rparr>, n))"

text \<open>
  \<^verbatim>\<open>__init__\<close>, on a store file that holds the given rows, with the clock at its first
  reading.
\<close>

definition Dashboard_init :: "clock \<Rightarrow> job_row list \<Rightarrow> sample_row list \<Rightarrow> Dashboard \<times> nat" where
  "Dashboard_init clk js ss =
     load_jobs clk
       (\<lparr>db = init_db js ss,
         current_job_id = None,
         rate_calc = RateAverager_init 1,
         last_values = \<lparr>v_accepted = 0, v_rejected = 0, v_total = 0, v_rate = 0\<rparr>,
         last_data_ts = None,
         last_cycle_ts = None,
         prev_total = None,
         pending = None,
         health_tag = (Msg_OK, True),
         rate_history = [],
         time_history = []\<rparr>, 0)"

text \<open>
  \<^verbatim>\<open>str.isspace\<close> on the code points below 256, and \<^verbatim>\<open>str.strip()\<close>. A \<^verbatim>\<open>char\<close> is a
  code point of that range.
\<close>

definition isspace :: "char \<Rightarrow> bool" where
  "isspace c =
     (let n = (of_char c :: nat)
      in (9 \<le> n \<and> n \<le> 13) \<or> (28 \<le> n \<and> n \<le> 32) \<or> n = 133 \<or> n = 160)"

definition strip :: "string \<Rightarrow> string" where
  "strip s = rev (dropWhile isspace (rev (dropWhile isspace s)))"

text \<open>
  \<^verbatim>\<open>new_job\<close>. The dialog's answer \<^verbatim>\<open>(name, ok)\<close> is the input. The commit writes every
  uncommitted row of the connection and leaves \<^verbatim>\<open>_pending\<close> as it is.
\<close>

definition new_job :: "clock \<Rightarrow> string \<times> bool \<Rightarrow> Dashboard \<times> nat \<Rightarrow> py_error + Dashboard \<times> nat" where
  "new_job clk = (\<lambda>(name, ok) (st, n).
     if \<not> ok \<or> strip name = [] then Inr (st, n)
     else
       let ts = clk n;
           row = \<lparr>j_id = next_job_id (jobs (db st)), j_name = strip name, j_started_at = ts\<rparr>;
           d = commit ((db st)\<lparr>jobs := jobs (db st) @ [row]\<rparr>)
       in Inr (load_jobs clk (st\<lparr>db := d\<rparr>, Suc n)))"

text \<open>\<^verbatim>\<open>select_job\<close>; the input is the item data of the chosen index.\<close>

definition select_job :: "clock \<Rightarrow> int option \<Rightarrow> Dashboard \<times> nat \<Rightarrow> Dashboard \<times> nat" where
  "select_job clk jid = (\<lambda>(st, n).
     case jid of
       None \<Rightarrow> (st, n)
     | Some j \<Rightarrow> load_job_data clk j (st\<lparr>current_job_id := Some j\<rparr>, n))"

text \<open>
  \<^verbatim>\<open>append_sample\<close>. \<^verbatim>\<open>not self.current_job_id\<close> holds for \<^verbatim>\<open>None\<close> and for 0.
\<close>

definition append_sample ::
  "clock \<Rightarrow> int \<Rightarrow> int \<Rightarrow> int \<Rightarrow> real \<Rightarrow> Dashboard \<times> nat \<Rightarrow> py_error + Dashboard \<times> nat" where
  "append_sample clk accepted rejected tot rate = (\<lambda>(st, n).
     case current_job_id st of
       None \<Rightarrow> Inr (st, n)
     | Some j \<Rightarrow>
         if j = 0 then Inr (st, n)
         else
           let ts = clk n;
               row = \<lparr>s_job_id = j, s_ts = ts, s_accepted = accepted, s_rejected = rejected,
                      s_total = tot, s_rate = rate\<rparr>;
               d = (db st)\<lparr>samples := samples (db st) @ [row]\<rparr>;
               p = (case pending st of None \<Rightarrow> 0 | Some p \<Rightarrow> p) + 1
           in if p \<ge> 10 then Inr (st\<lparr>db := commit d, pending := Some 0\<rparr>, Suc n)
              else Inr (st\<lparr>db := d, pending := Some p\<rparr>, Suc n))"

definition log_sample_tick :: "clock \<Rightarrow> Dashboard \<times> nat \<Rightarrow> py_error + Dashboard \<times> nat" where
  "log_sample_tick clk = (\<lambda>(st, n).
     let v = last_values st
     in append_sample clk (v_accepted v) (v_rejected v) (v_total v) (v_rate v) (st, n))"

text \<open>A run of \<^verbatim>\<open>append_sample\<close> calls, one for each tuple of values.\<close>

fun append_samples ::
  "clock \<Rightarrow> (int \<times> int \<times> int \<times> real) list \<Rightarrow> Dashboard \<times> nat \<Rightarrow> py_error + Dashboard \<times> nat" where
  "append_samples clk [] s = Inr s"
| "append_samples clk ((a, r, t, x) # vs) s =
     (case append_sample clk a r t x s of Inl e \<Rightarrow> Inl e | Inr s' \<Rightarrow> append_samples clk vs s')"

text \<open>\<^verbatim>\<open>on_state\<close>; \<^verbatim>\<open>now\<close> is the reading of \<^verbatim>\<open>time.time()\<close>.\<close>

definition on_state :: "bool \<Rightarrow> real \<Rightarrow> Dashboard \<Rightarrow> Dashboard" where
  "on_state conn now st = (if conn then st\<lparr>last_data_ts := Some now\<rparr> else st)"

text \<open>
  \<^verbatim>\<open>int(d.get(k) or dflt)\<close> on a dictionary of integers: a missing key, \<^verbatim>\<open>None\<close> and 0 are
  all falsy and give the default.
\<close>

definition get_or :: "(string \<Rightarrow> int option) \<Rightarrow> string \<Rightarrow> int \<Rightarrow> int" where
  "get_or d k dflt = (case d k of None \<Rightarrow> dflt | Some v \<Rightarrow> if v = 0 then dflt else v)"

text \<open>
  \<^verbatim>\<open>on_data\<close>; \<^verbatim>\<open>now\<close> is the reading of \<^verbatim>\<open>time.time()\<close>. The last reading of the clock is
  the one appended to the time history.
\<close>

definition on_data ::
  "clock \<Rightarrow> real \<Rightarrow> (string \<Rightarrow> int option) \<Rightarrow> Dashboard \<times> nat \<Rightarrow> py_error + Dashboard \<times> nat" where
  "on_data clk now d = (\<lambda>(st, n).
     let st1 = st\<lparr>last_data_ts := Some now\<rparr>;
         accepted = get_or d ''accepted'' 0;
         rejected = get_or d ''rejected'' 0;
         tot = get_or d ''total'' (accepted + rejected);
         st2 = (if (case prev_total st1 of None \<Rightarrow> True | Some p \<Rightarrow> tot > p)
                then st1\<lparr>last_cycle_ts := Some now\<rparr> else st1);
         st3 = st2\<lparr>prev_total := Some tot\<rparr>
     in case hourly_rate clk (update_from_total clk tot (rate_calc st3, n)) of
          Inl e \<Rightarrow> Inl e
        | Inr (rate, rc, n') \<Rightarrow>
            Inr (st3\<lparr>rate_calc := rc,
                     rate_history := deque_append (rate_history st3) rate,
                     time_history := deque_append (time_history st3) (clk n'),
                     last_values := \<lparr>v_accepted = accepted, v_rejected = rejected,
                                     v_total = tot, v_rate = rate\<rparr>\<rparr>,
                 Suc n'))"

text \<open>
  \<^verbatim>\<open>check_health\<close>; the two thresholds are the values of their spin boxes and \<^verbatim>\<open>now\<close> is
  the reading of \<^verbatim>\<open>time.time()\<close>.
\<close>

definition check_health :: "real \<Rightarrow> real \<Rightarrow> real \<Rightarrow> Dashboard \<Rightarrow> Dashboard" where
  "check_health data_timeout cycle_timeout now st =
     (let (msg, ok) = (Msg_OK, True);
          (msg, ok) =
            (case last_data_ts st of
               None \<Rightarrow> (msg, ok)
             | Some t \<Rightarrow>
                 if now - t > data_timeout then (Msg_DATA_TIMEOUT data_timeout, False)
                 else (msg, ok));
          (msg, ok) =
            (if ok then
               (case last_cycle_ts st of
                  None \<Rightarrow> (msg, ok)
                | Some t \<Rightarrow>
                    if now - t > cycle_timeout then (Msg_NO_CYCLES cycle_timeout, False)
                    else (msg, ok))
             else (msg, ok))
      in st\<lparr>health_tag := (msg, ok)\<rparr>)"

text \<open>
  What the event loop delivers to the window before it closes: the worker's two signals,
  the three timers and the user's actions on jobs. (\<^verbatim>\<open>start_rtde\<close>, \<^verbatim>\<open>stop_rtde\<close> and
  \<^verbatim>\<open>export_csv\<close> assign none of the fields above.) \<^verbatim>\<open>run_events\<close> handles the events in
  order from a given state and stops at the first exception.
\<close>

datatype event =
    OnState bool real
  | OnData "string \<Rightarrow> int option" real
  | CheckHealth real real real
  | LogSampleTick
  | NewJob string bool
  | SelectJob "int option"
  | UpdatePlot

fun handle :: "clock \<Rightarrow> event \<Rightarrow> Dashboard \<times> nat \<Rightarrow> py_error + Dashboard \<times> nat" where
  "handle clk (OnState conn now) (st, n) = Inr (on_state conn now st, n)"
| "handle clk (OnData d now) (st, n) = on_data clk now d (st, n)"
| "handle clk (CheckHealth dt ct now) (st, n) = Inr (check_health dt ct now st, n)"
| "handle clk LogSampleTick (st, n) = log_sample_tick clk (st, n)"
| "handle clk (NewJob name ok) (st, n) = new_job clk (name, ok) (st, n)"
| "handle clk (SelectJob jid) (st, n) = Inr (select_job clk jid (st, n))"
| "handle clk UpdatePlot (st, n) = Inr (update_plot clk (st, n))"

fun run_events :: "clock \<Rightarrow> event list \<Rightarrow> Dashboard \<times> nat \<Rightarrow> py_error + Dashboard \<times> nat" where
  "run_events clk [] s = Inr s"
| "run_events clk (e # es) s =
     (case handle clk e s of Inl err \<Rightarrow> Inl err | Inr s' \<Rightarrow> run_events clk es s')"

section \<open>Auxiliary notions for the proofs\<close>

text \<open>
  The event queue under a clock that never runs backwards: the timestamps are in
  non-decreasing order and none is later than the next reading.
\<close>

definition ev_inv :: "clock \<Rightarrow> datetime list \<Rightarrow> nat \<Rightarrow> bool" where
  "ev_inv clk es n \<longleftrightarrow> sorted es \<and> (\<forall>e \<in> set es. e \<le> clk n)"

definition ra_inv :: "clock \<Rightarrow> RateAverager \<times> nat \<Rightarrow> bool" where
  "ra_inv clk = (\<lambda>(ra, n). sorted (events ra) \<and> (\<forall>e \<in> set (events ra). e \<le> clk n))"

text \<open>
  What every slot of the window keeps: the estimator's window is the hour it was created
  with, and the cycle clock is set only once the data clock is.
\<close>

definition liveness_inv :: "Dashboard \<Rightarrow> bool" where
  "liveness_inv st \<longleftrightarrow>
     window (rate_calc st) = 3600000000 \<and> (last_data_ts st = None \<longrightarrow> last_cycle_ts st = None)"

text \<open>
  The rows that a run of \<^verbatim>\<open>append_sample\<close> calls inserts for job \<open>j\<close>, the first of them
  stamped with reading \<open>n\<close> of the clock.
\<close>

definition sample_rows ::
  "int \<Rightarrow> clock \<Rightarrow> nat \<Rightarrow> (int \<times> int \<times> int \<times> real) list \<Rightarrow> sample_row list" where
  "sample_rows j clk n vs =
     map (\<lambda>(i, (a, r, t, x)).
            \<lparr>s_job_id = j, s_ts = clk i, s_accepted = a, s_rejected = r, s_total = t, s_rate = x\<rparr>)
         (zip [n ..< n + length vs] vs)"

section \<open>The rate estimator\<close>

lemma append_now_eq: "append_now clk k (es, n) = (es @ map clk [n ..< n + k], n + k)"
proof (induction k arbitrary: es n)
  case 0
  show ?case by simp
next
  case (Suc k)
  have "[n ..< n + Suc k] = n # [Suc n ..< Suc n + k]"
    by (simp add: upt_rec)
  with Suc show ?case by simp
qed

lemma trim_loop_suffix: "suffix (trim_loop c es) es"
  by (induction es) (auto simp: suffix_Cons)

lemma trim_loop_replicate_keep: "c \<le> t \<Longrightarrow> trim_loop c (es @ replicate k t) = trim_loop c es @ replicate k t"
  apply (induction es)
   apply (cases k; simp)
  apply simp
  done

text \<open>
  The timestamps of one burst need not coincide: every appended event takes its own reading
  of the clock. With a clock that advances by one microsecond per reading, an increase of 2
  over the baseline appends the two different timestamps 0 and 1.
\<close>

theorem update_from_total_coincident_counterexample:
  "events (fst (update_from_total (\<lambda>i. int i) 2
             (\<lparr>events = [], window = 3600000000, last_total = Some 0\<rparr>, 0))) = [0, 1]
   \<and> \<not> (\<exists>t. events (fst (update_from_total (\<lambda>i. int i) 2
             (\<lparr>events = [], window = 3600000000, last_total = Some 0\<rparr>, 0))) = replicate 2 t)"
proof -
  have e: "events (fst (update_from_total (\<lambda>i. int i) 2
             (\<lparr>events = [], window = 3600000000, last_total = Some 0\<rparr>, 0))) = [0, 1]"
    by (simp add: update_from_total_def trim_def append_now_eq upt_rec)
  show ?thesis
    unfolding e by (auto simp: numeral_2_eq_2)
qed

text \<open>
  C2 (as amended). If \<^verbatim>\<open>update_from_total\<close> is called with a total strictly greater than the
  recorded baseline by \<open>k\<close>, then exactly \<open>k\<close> event timestamps are appended, the i-th of them
  being the i-th reading of the clock taken during the call; the queue is then trimmed from
  the front against one further reading, and the baseline becomes the new total. When the
  clock reads \<open>t\<close> at all these readings (and the window is not negative), the new content
  is the trimmed old content followed by \<open>k\<close> timestamps equal to \<open>t\<close>.
\<close>

theorem update_from_total_increase:
  assumes "last_total ra = Some b" and "b < tot"
  shows "update_from_total clk tot (ra, n) =
           (ra\<lparr>events := trim_loop (clk (n + nat (tot - b)) - window ra)
                              (events ra @ map clk [n ..< n + nat (tot - b)]),
               last_total := Some tot\<rparr>,
            Suc (n + nat (tot - b)))
         \<and> length (map clk [n ..< n + nat (tot - b)]) = nat (tot - b)
         \<and> ((\<forall>i \<le> nat (tot - b). clk (n + i) = t) \<and> 0 \<le> window ra \<longrightarrow>
              events (fst (update_from_total clk tot (ra, n)))
                = trim_loop (t - window ra) (events ra) @ replicate (nat (tot - b)) t)"
proof -
  let ?k = "nat (tot - b)"
  have eq: "update_from_total clk tot (ra, n) =
           (ra\<lparr>events := trim_loop (clk (n + ?k) - window ra)
                              (events ra @ map clk [n ..< n + ?k]),
               last_total := Some tot\<rparr>,
            Suc (n + ?k))"
    using assms by (simp add: update_from_total_def trim_def append_now_eq)
  have const: "events (fst (update_from_total clk tot (ra, n)))
                = trim_loop (t - window ra) (events ra) @ replicate ?k t"
    if h: "\<forall>i \<le> ?k. clk (n + i) = t" and w: "0 \<le> window ra"
  proof -
    have "map clk [n ..< n + ?k] = replicate ?k t"
      using h by (auto simp: map_replicate_const[symmetric] intro!: nth_equalityI)
    moreover have "clk (n + ?k) = t" using h by simp
    ultimately show ?thesis
      using w by (simp add: eq trim_loop_replicate_keep)
  qed
  show ?thesis using eq const by simp
qed

theorem update_from_total_increase_witness:
  "update_from_total (\<lambda>i. 7) 5 (\<lparr>events = [1], window = 3600000000, last_total = Some 3\<rparr>, 0)
     = (\<lparr>events = [1, 7, 7], window = 3600000000, last_total = Some 5\<rparr>, 3)"
  using update_from_total_increase
    [of "\<lparr>events = [1], window = 3600000000, last_total = Some 3\<rparr>" 3 5 "\<lambda>i. 7" 0 7]
  by (simp add: upt_rec)

text \<open>
  C3. If \<^verbatim>\<open>update_from_total\<close> is called with a total less than or equal to the recorded
  baseline, the call returns a state (the method has no raising statement), no event is
  recorded: the queue afterwards is the old queue trimmed from the front, hence a suffix of
  it and no longer than it; and the baseline becomes the given total.
\<close>

theorem update_from_total_no_increase:
  assumes "last_total ra = Some b" and "tot \<le> b"
  shows "update_from_total clk tot (ra, n) =
           (ra\<lparr>events := trim_loop (clk n - window ra) (events ra), last_total := Some tot\<rparr>, Suc n)
         \<and> suffix (events (fst (update_from_total clk tot (ra, n)))) (events ra)
         \<and> length (events (fst (update_from_total clk tot (ra, n)))) \<le> length (events ra)"
proof -
  have eq: "update_from_total clk tot (ra, n) =
           (ra\<lparr>events := trim_loop (clk n - window ra) (events ra), last_total := Some tot\<rparr>, Suc n)"
    using assms by (simp add: update_from_total_def trim_def)
  show ?thesis
    by (simp add: eq trim_loop_suffix suffix_length_le)
qed

theorem update_from_total_no_increase_witness:
  "update_from_total (\<lambda>i. 7) 2 (\<lparr>events = [1, 3], window = 5, last_total = Some 3\<rparr>, 0)
     = (\<lparr>events = [3], window = 5, last_total = Some 2\<rparr>, 1)"
  using update_from_total_no_increase
    [of "\<lparr>events = [1, 3], window = 5, last_total = Some 3\<rparr>" 3 2 "\<lambda>i. 7" 0]
  by simp

lemma py_round_cases: "py_round x = \<lfloor>x\<rfloor> \<or> py_round x = \<lfloor>x\<rfloor> + 1"
  by (simp add: py_round_def Let_def)

lemma py_round_nonneg: "0 \<le> x \<Longrightarrow> 0 \<le> py_round x"
  using py_round_cases [of x] by (auto simp: zero_le_floor intro: add_nonneg_nonneg)

lemma py_round_near: "\<bar>real_of_int (py_round x) - x\<bar> \<le> 1 / 2"
  unfolding py_round_def Let_def by (auto split: if_splits)

lemma py_round_ge_floor: "\<lfloor>x\<rfloor> \<le> py_round x"
  using py_round_cases [of x] by auto

lemma fl_exponent_le:
  assumes "0 < a"
  shows "2 powi (fl_exponent a) \<le> a"
proof (cases "1 \<le> a")
  case True
  then have f: "0 < \<lfloor>a\<rfloor>" by simp
  have b: "1 \<le> bitlen \<lfloor>a\<rfloor>"
    using f bitlen_eq_zero_iff [of "\<lfloor>a\<rfloor>"] bitlen_nonneg [of "\<lfloor>a\<rfloor>"] by linarith
  have "(2::int) ^ nat (bitlen \<lfloor>a\<rfloor> - 1) \<le> \<lfloor>a\<rfloor>"
    using bitlen_bounds [OF f] by simp
  then have "real_of_int (2 ^ nat (bitlen \<lfloor>a\<rfloor> - 1)) \<le> real_of_int \<lfloor>a\<rfloor>"
    by (simp only: of_int_le_iff)
  also have "\<dots> \<le> a" by simp
  finally have "(2::real) ^ nat (bitlen \<lfloor>a\<rfloor> - 1) \<le> a" by simp
  moreover have "(2::real) powi (bitlen \<lfloor>a\<rfloor> - 1) = 2 ^ nat (bitlen \<lfloor>a\<rfloor> - 1)"
    using b by (simp add: power_int_def)
  ultimately show ?thesis
    using True by (simp add: fl_exponent_def)
next
  case False
  let ?c = "\<lceil>1 / a\<rceil>"
  let ?k = "bitlen (?c - 1)"
  from False assms have "1 < 1 / a" by simp
  then have c: "0 < ?c - 1"
    by (smt (verit) ceiling_le_one)
  have "?c - 1 < 2 ^ nat ?k"
    using bitlen_bounds [OF c] by simp
  then have ck: "?c \<le> 2 ^ nat ?k" by simp
  have "1 / a \<le> real_of_int ?c"
    by (rule le_of_int_ceiling)
  also have "\<dots> \<le> real_of_int (2 ^ nat ?k)"
    using ck by (simp only: of_int_le_iff)
  finally have "1 / a \<le> 2 ^ nat ?k" by simp
  then have "1 / 2 ^ nat ?k \<le> a"
    using assms by (simp add: field_simps)
  moreover have "(2::real) powi (- ?k) = 1 / 2 ^ nat ?k"
    using bitlen_nonneg [of "?c - 1"] by (simp add: power_int_def field_simps)
  ultimately show ?thesis
    using False by (simp add: fl_exponent_def)
qed

lemma fl_mantissa_ge:
  assumes "0 < a"
  shows "2 ^ 52 \<le> a / 2 powi (fl_exponent a - 52)"
proof -
  have "2 powi (fl_exponent a - 52) = (2::real) powi (fl_exponent a) / 2 ^ 52"
    by (simp add: power_int_diff)
  moreover have "0 < (2::real) powi (fl_exponent a)" by simp
  ultimately show ?thesis
    using fl_exponent_le [OF assms] by (simp add: field_simps)
qed

lemma fl_round_pos:
  assumes "0 < x"
  shows "0 < fl_round x"
proof -
  let ?u = "(2::real) powi (fl_exponent x - 52)"
  have "(2::real) ^ 52 \<le> x / ?u"
    using fl_mantissa_ge [OF assms] .
  then have "(2::int) ^ 52 \<le> \<lfloor>x / ?u\<rfloor>"
    by (simp add: le_floor_iff)
  moreover have "(0::int) < 2 ^ 52" by simp
  ultimately have "0 < py_round (x / ?u)"
    using py_round_ge_floor [of "x / ?u"] by linarith
  moreover have "0 < ?u" by simp
  ultimately show ?thesis
    using assms by (simp add: fl_round_def Let_def)
qed

lemma fl_round_minus: "fl_round (- x) = - fl_round x"
  by (simp add: fl_round_def Let_def)

lemma fl_round_0: "fl_round 0 = 0"
  by (simp add: fl_round_def)

lemma fl_round_pos_iff: "0 < fl_round x \<longleftrightarrow> 0 < x"
proof (cases "0 < x")
  case True
  then show ?thesis by (simp add: fl_round_pos)
next
  case False
  then have "0 \<le> - x" by simp
  then have "0 \<le> fl_round (- x)"
    using fl_round_pos [of "- x"] fl_round_0 by (cases "x = 0") (auto simp: less_imp_le)
  with False show ?thesis by (simp add: fl_round_minus)
qed

lemma fl_round_eq_0_iff: "fl_round x = 0 \<longleftrightarrow> x = 0"
proof
  assume z: "fl_round x = 0"
  show "x = 0"
  proof (rule ccontr)
    assume "x \<noteq> 0"
    then consider "0 < x" | "0 < - x" by linarith
    then show False
    proof cases
      case 1
      with fl_round_pos [of x] z show False by simp
    next
      case 2
      with fl_round_pos [of "- x"] z show False by (simp add: fl_round_minus)
    qed
  qed
qed (simp add: fl_round_0)

lemma fl_round_nonneg: "0 \<le> x \<Longrightarrow> 0 \<le> fl_round x"
  using fl_round_pos [of x] fl_round_0 by (cases "x = 0") (auto simp: less_imp_le)

lemma fl_round_err: "\<bar>fl_round x - x\<bar> \<le> \<bar>x\<bar> / 2 ^ 53"
proof (cases "x = 0")
  case True
  then show ?thesis by (simp add: fl_round_0)
next
  case False
  let ?a = "\<bar>x\<bar>"
  let ?u = "(2::real) powi (fl_exponent ?a - 52)"
  let ?m = "real_of_int (py_round (?a / ?u))"
  have a: "0 < ?a" using False by simp
  have u: "0 < ?u" by simp
  have "fl_round x = sgn x * (?m * ?u)"
    using False by (simp add: fl_round_def Let_def)
  moreover have "x = sgn x * (?a / ?u * ?u)"
    using u by (simp add: sgn_mult_abs)
  ultimately have "fl_round x - x = sgn x * ((?m - ?a / ?u) * ?u)"
    by (simp add: algebra_simps)
  then have "\<bar>fl_round x - x\<bar> = \<bar>?m - ?a / ?u\<bar> * ?u"
    using False u by (simp add: abs_mult abs_sgn_eq)
  also have "\<dots> \<le> 1 / 2 * ?u"
    using py_round_near [of "?a / ?u"] u by (intro mult_right_mono) auto
  also have "\<dots> \<le> ?a / 2 ^ 53"
  proof -
    have "2 ^ 52 * ?u \<le> ?a"
      using fl_mantissa_ge [OF a] u by (simp add: field_simps)
    then show ?thesis by simp
  qed
  finally show ?thesis .
qed

lemma fl_div_nonneg: "0 \<le> a \<Longrightarrow> 0 \<le> b \<Longrightarrow> 0 \<le> fl_div a b"
  by (simp add: fl_div_def fl_round_nonneg)

lemma float_hours_pos_iff: "0 < fl_div (total_seconds d) 3600 \<longleftrightarrow> 0 < d"
  by (simp add: fl_div_def total_seconds_def fl_round_pos_iff)

lemma float_hours_eq_0_iff: "fl_div (total_seconds d) 3600 = 0 \<longleftrightarrow> d = 0"
  by (simp add: fl_div_def total_seconds_def fl_round_eq_0_iff)

lemma py_round2_nonneg: "0 \<le> x \<Longrightarrow> 0 \<le> py_round2 x"
  by (simp add: py_round2_def py_round_nonneg fl_round_nonneg)

lemma float_rate_nonneg:
  assumes "0 < d"
  shows "0 \<le> py_round2 (fl_div (fl_round (real k)) (fl_div (total_seconds d) 3600))"
proof -
  have "0 \<le> fl_div (total_seconds d) 3600"
    using assms float_hours_pos_iff [of d] by simp
  moreover have "0 \<le> fl_round (real k)"
    by (rule fl_round_nonneg) simp
  ultimately have "0 \<le> fl_div (fl_round (real k)) (fl_div (total_seconds d) 3600)"
    by (simp only: fl_div_nonneg)
  then show ?thesis by (rule py_round2_nonneg)
qed

lemma trim_loop_sorted: "sorted es \<Longrightarrow> trim_loop c es = filter (\<lambda>e. c \<le> e) es"
proof (induction es)
  case Nil
  show ?case by simp
next
  case (Cons e es)
  show ?case
  proof (cases "e < c")
    case True
    with Cons show ?thesis by simp
  next
    case False
    with Cons.prems have "\<forall>x \<in> set (e # es). c \<le> x" by auto
    then have "filter (\<lambda>x. c \<le> x) (e # es) = e # es"
      by (simp only: filter_id_conv)
    with False show ?thesis by simp
  qed
qed

lemma ev_inv_later: "mono clk \<Longrightarrow> ev_inv clk es n \<Longrightarrow> n \<le> m \<Longrightarrow> ev_inv clk es m"
  unfolding ev_inv_def by (meson monoD order_trans)

lemma ev_inv_append_now:
  assumes "mono clk"
  shows "ev_inv clk es n \<Longrightarrow> append_now clk k (es, n) = (es', n') \<Longrightarrow> ev_inv clk es' n'"
proof (induction k arbitrary: es n)
  case 0
  then show ?case by simp
next
  case (Suc k)
  have "clk n \<le> clk (Suc n)"
    using assms by (simp add: monoD)
  with Suc.prems(1) have "ev_inv clk (es @ [clk n]) (Suc n)"
    unfolding ev_inv_def by (auto simp: sorted_append)
  with Suc.IH Suc.prems(2) show ?case by simp
qed

lemma ev_inv_trim_loop: "ev_inv clk es n \<Longrightarrow> ev_inv clk (trim_loop c es) n"
  unfolding ev_inv_def by (simp add: trim_loop_sorted sorted_wrt_filter)

lemma ra_inv_trim:
  assumes "mono clk" and "ra_inv clk (ra, n)"
  shows "ra_inv clk (trim clk (ra, n))"
proof -
  from assms(2) have "ev_inv clk (events ra) n"
    by (simp add: ra_inv_def ev_inv_def)
  then have "ev_inv clk (trim_loop (clk n - window ra) (events ra)) (Suc n)"
    using assms(1) ev_inv_later ev_inv_trim_loop by (meson le_SucI order_refl)
  then show ?thesis
    by (simp add: trim_def ra_inv_def ev_inv_def)
qed

lemma ra_inv_update:
  assumes "mono clk" and "ra_inv clk (ra, n)"
  shows "ra_inv clk (update_from_total clk t (ra, n))"
proof (cases "last_total ra")
  case None
  with assms(2) show ?thesis
    by (simp add: update_from_total_def ra_inv_def)
next
  case (Some lt)
  obtain es n1 where a: "(if t > lt then append_now clk (nat (t - lt)) (events ra, n)
                          else (events ra, n)) = (es, n1)"
    by (cases "(if t > lt then append_now clk (nat (t - lt)) (events ra, n) else (events ra, n))")
  from assms(2) have "ev_inv clk (events ra) n"
    by (simp add: ra_inv_def ev_inv_def)
  with a have "ev_inv clk es n1"
    using ev_inv_append_now [OF assms(1)] by (auto split: if_splits)
  then have "ra_inv clk (ra\<lparr>events := es, last_total := Some t\<rparr>, n1)"
    by (simp add: ra_inv_def ev_inv_def)
  then have "ra_inv clk (trim clk (ra\<lparr>events := es, last_total := Some t\<rparr>, n1))"
    by (rule ra_inv_trim [OF assms(1)])
  with Some a show ?thesis
    by (simp add: update_from_total_def)
qed

lemma window_trim: "window (fst (trim clk s)) = window (fst s)"
  by (cases s) (simp add: trim_def)

lemma window_update: "window (fst (update_from_total clk t s)) = window (fst s)"
  by (cases s) (simp add: update_from_total_def trim_def split: option.splits prod.splits)

lemma hourly_rate_defined:
  assumes "window (fst s) \<noteq> 0"
  shows "\<exists>r. hourly_rate clk s = Inr (r, trim clk s)"
proof -
  obtain ra n where t: "trim clk s = (ra, n)" by (cases "trim clk s")
  have "window ra \<noteq> 0"
    using window_trim [of clk s] t assms by simp
  then show ?thesis
    by (simp add: hourly_rate_def t Let_def float_hours_eq_0_iff)
qed

lemma run_calls_window:
  "window (fst s) \<noteq> 0 \<Longrightarrow>
   \<exists>s'. run_calls clk cs s = Inr s' \<and> window (fst s') = window (fst s)"
proof (induction cs arbitrary: s)
  case Nil
  then show ?case by simp
next
  case (Cons c cs)
  show ?case
  proof (cases c)
    case (Update t)
    have "window (fst (update_from_total clk t s)) = window (fst s)"
      by (rule window_update)
    then show ?thesis
      using Cons.IH [of "update_from_total clk t s"] Cons.prems Update by simp
  next
    case Rate
    obtain r where r: "hourly_rate clk s = Inr (r, trim clk s)"
      using hourly_rate_defined [OF Cons.prems] by blast
    have "window (fst (trim clk s)) = window (fst s)"
      by (rule window_trim)
    then show ?thesis
      using Cons.IH [of "trim clk s"] Cons.prems Rate r by simp
  qed
qed

lemma run_calls_inv:
  assumes "mono clk"
  shows "ra_inv clk s \<Longrightarrow> window (fst s) \<noteq> 0 \<Longrightarrow>
         \<exists>s'. run_calls clk cs s = Inr s' \<and> ra_inv clk s' \<and> window (fst s') = window (fst s)"
proof (induction cs arbitrary: s)
  case Nil
  then show ?case by simp
next
  case (Cons c cs)
  show ?case
  proof (cases c)
    case (Update t)
    have "ra_inv clk (update_from_total clk t s)"
      using ra_inv_update [OF assms, of "fst s" "snd s" t] Cons.prems(1) by simp
    moreover have "window (fst (update_from_total clk t s)) = window (fst s)"
      by (rule window_update)
    ultimately show ?thesis
      using Cons.IH [of "update_from_total clk t s"] Cons.prems(2) Update by simp
  next
    case Rate
    obtain r where r: "hourly_rate clk s = Inr (r, trim clk s)"
      using hourly_rate_defined [OF Cons.prems(2)] by blast
    have "ra_inv clk (trim clk s)"
      using ra_inv_trim [OF assms, of "fst s" "snd s"] Cons.prems(1) by simp
    moreover have "window (fst (trim clk s)) = window (fst s)"
      by (rule window_trim)
    ultimately show ?thesis
      using Cons.IH [of "trim clk s"] Cons.prems(2) Rate r by simp
  qed
qed


lemma sorted_hd_Min:
  fixes xs :: "int list"
  assumes "sorted xs" and "xs \<noteq> []"
  shows "Min (set xs) = hd xs"
proof -
  obtain x ys where xs: "xs = x # ys"
    using assms(2) by (cases xs) auto
  with assms(1) have "\<forall>y \<in> set xs. x \<le> y" by auto
  then have "Min (set xs) = x"
    using xs by (intro Min_eqI) auto
  with xs show ?thesis by simp
qed

lemma sorted_last_Max:
  fixes xs :: "int list"
  assumes "sorted xs" and "xs \<noteq> []"
  shows "Max (set xs) = last xs"
proof -
  have xs: "xs = butlast xs @ [last xs]"
    using assms(2) by simp
  then have "sorted (butlast xs @ [last xs])"
    using assms(1) by simp
  then have "\<forall>y \<in> set (butlast xs @ [last xs]). y \<le> last xs"
    by (auto simp: sorted_append)
  with xs have "\<forall>y \<in> set xs. y \<le> last xs" by simp
  then show ?thesis
    using assms(2) by (intro Max_eqI) auto
qed

lemma sorted_hd_le_last:
  fixes xs :: "int list"
  assumes "sorted xs" and "xs \<noteq> []"
  shows "hd xs \<le> last xs"
proof -
  have "Min (set xs) \<le> Max (set xs)"
    using assms(2) by (simp add: Min_le_iff)
  then show ?thesis
    using assms by (simp add: sorted_hd_Min sorted_last_Max)
qed

lemma py_round2_0: "py_round2 0 = 0"
  by (simp add: py_round2_def py_round_def fl_round_0)

text \<open>What \<^verbatim>\<open>hourly_rate\<close> returns, for any queue.\<close>

lemma hourly_rate_eq:
  fixes clk :: clock and n :: nat and ra :: RateAverager
  assumes w: "window ra \<noteq> 0"
  defines "kept \<equiv> trim_loop (clk n - window ra) (events ra)"
  shows "hourly_rate clk (ra, n) =
           Inr (if length kept \<le> 1
                then py_round2 (fl_div (fl_round (real (length kept)))
                                  (fl_div (total_seconds (window ra)) 3600))
                else if hd kept < last kept
                then py_round2 (fl_div (fl_round (real (length kept)))
                                  (fl_div (total_seconds (last kept - hd kept)) 3600))
                else 0,
                ra\<lparr>events := kept\<rparr>, Suc n)"
proof -
  have t: "trim clk (ra, n) = (ra\<lparr>events := kept\<rparr>, Suc n)"
    by (simp add: trim_def kept_def)
  show ?thesis
    using w
    by (simp add: hourly_rate_def t Let_def float_hours_eq_0_iff float_hours_pos_iff py_round2_0)
qed

text \<open>Every float operation has a relative error of at most \<open>1 / 2 ^ 53\<close>.\<close>

lemma fl_round_lower:
  assumes "0 \<le> x"
  shows "(1 - 1 / 2 ^ 53) * x \<le> fl_round x"
proof -
  have e: "\<bar>fl_round x - x\<bar> \<le> x / 2 ^ 53"
    using fl_round_err [of x] assms by simp
  have a: "(1 - 1 / 2 ^ 53) * x = x - x / 2 ^ 53"
    by (simp add: algebra_simps)
  from e show ?thesis unfolding a by linarith
qed

lemma fl_round_upper:
  assumes "0 \<le> x"
  shows "fl_round x \<le> (1 + 1 / 2 ^ 53) * x"
proof -
  have e: "\<bar>fl_round x - x\<bar> \<le> x / 2 ^ 53"
    using fl_round_err [of x] assms by simp
  have a: "(1 + 1 / 2 ^ 53) * x = x + x / 2 ^ 53"
    by (simp add: algebra_simps)
  from e show ?thesis unfolding a by linarith
qed

lemma float_quotient_err:
  fixes L :: real and d :: int
  assumes L: "0 \<le> L" and d: "0 < d"
  shows "\<bar>fl_div (fl_round L) (fl_div (total_seconds d) 3600) - L / hours_of d\<bar>
           \<le> (L / hours_of d) / 2 ^ 50"
proof -
  define lo hi :: real where "lo = 1 - 1 / 2 ^ 53" and "hi = 1 + 1 / 2 ^ 53"
  define H where "H = hours_of d"
  define c where "c = fl_round L"
  define ts where "ts = total_seconds d"
  define h where "h = fl_div ts 3600"
  define q where "q = fl_div c h"
  have lo: "0 < lo" and hi: "0 < hi"
    by (simp_all add: lo_def hi_def)
  have H: "0 < H" and Hs: "H = real_of_int d / 1000000 / 3600"
    using d by (simp_all add: H_def hours_of_def)
  have c0: "0 \<le> c" and c1: "lo * L \<le> c" and c2: "c \<le> hi * L"
    using L unfolding c_def lo_def hi_def
    by (simp_all only: fl_round_nonneg fl_round_lower fl_round_upper)
  have t0: "0 \<le> real_of_int d / 1000000"
    using d by simp
  have ts0: "0 \<le> ts" and ts1: "lo * (real_of_int d / 1000000) \<le> ts"
    and ts2: "ts \<le> hi * (real_of_int d / 1000000)"
    using t0 unfolding ts_def total_seconds_def lo_def hi_def
    by (simp_all only: fl_round_nonneg fl_round_lower fl_round_upper)
  have u0: "0 \<le> ts / 3600"
    using ts0 by simp
  have h1: "lo * (ts / 3600) \<le> h" and h2: "h \<le> hi * (ts / 3600)"
    using u0 unfolding h_def fl_div_def lo_def hi_def
    by (simp_all only: fl_round_lower fl_round_upper)
  have "lo * (lo * (real_of_int d / 1000000) / 3600) \<le> lo * (ts / 3600)"
    using ts1 lo by (intro mult_left_mono divide_right_mono) simp_all
  with h1 have hl: "lo * lo * H \<le> h"
    by (simp add: Hs)
  have "hi * (ts / 3600) \<le> hi * (hi * (real_of_int d / 1000000) / 3600)"
    using ts2 hi by (intro mult_left_mono divide_right_mono) simp_all
  with h2 have hu: "h \<le> hi * hi * H"
    by (simp add: Hs)
  have llH: "0 < lo * lo * H"
    using lo H by simp
  with hl have hpos: "0 < h" by linarith
  have loL: "0 \<le> lo * L"
    using lo L by simp
  have r0: "0 \<le> c / h"
    using c0 hpos by simp
  have hiL: "0 \<le> hi * L"
    using hi L by simp
  have r2: "c / h \<le> (hi * L) / (lo * lo * H)"
    using hiL c2 llH hl by (rule frac_le)
  have r1: "(lo * L) / (hi * hi * H) \<le> c / h"
    using c0 c1 hpos hu by (rule frac_le)
  have q1: "lo * (c / h) \<le> q" and q2: "q \<le> hi * (c / h)"
    using r0 unfolding q_def fl_div_def lo_def hi_def
    by (simp_all only: fl_round_lower fl_round_upper)
  have "lo * ((lo * L) / (hi * hi * H)) \<le> lo * (c / h)"
    using r1 lo by (intro mult_left_mono) simp_all
  with q1 have ql: "lo * lo / (hi * hi) * (L / H) \<le> q"
    by (simp add: field_simps)
  have "hi * (c / h) \<le> hi * ((hi * L) / (lo * lo * H))"
    using r2 hi by (intro mult_left_mono) simp_all
  with q2 have qu: "q \<le> hi * hi / (lo * lo) * (L / H)"
    by (simp add: field_simps)
  have E: "0 \<le> L / H"
    using L H by simp
  have n1: "1 - 1 / 2 ^ 50 \<le> lo * lo / (hi * hi)"
    by (simp add: lo_def hi_def field_simps)
  have n2: "hi * hi / (lo * lo) \<le> 1 + 1 / 2 ^ 50"
    by (simp add: lo_def hi_def field_simps)
  have "(1 - 1 / 2 ^ 50) * (L / H) \<le> lo * lo / (hi * hi) * (L / H)"
    using n1 E by (rule mult_right_mono)
  with ql have a: "(1 - 1 / 2 ^ 50) * (L / H) \<le> q" by linarith
  have "hi * hi / (lo * lo) * (L / H) \<le> (1 + 1 / 2 ^ 50) * (L / H)"
    using n2 E by (rule mult_right_mono)
  with qu have b: "q \<le> (1 + 1 / 2 ^ 50) * (L / H)" by linarith
  have "\<bar>q - L / H\<bar> \<le> (L / H) / 2 ^ 50"
    using a b by (simp add: abs_le_iff algebra_simps)
  then show ?thesis
    by (simp add: q_def c_def h_def ts_def H_def)
qed

lemma py_round2_err:
  assumes "0 \<le> q"
  shows "\<bar>py_round2 q - q\<bar> \<le> 1 / 200 + (q + 1 / 200) / 2 ^ 53"
proof -
  define D where "D = real_of_int (py_round (q * 100)) / 100"
  have "\<bar>real_of_int (py_round (q * 100)) - q * 100\<bar> \<le> 1 / 2"
    by (rule py_round_near)
  then have near: "\<bar>D - q\<bar> \<le> 1 / 200"
    by (simp add: D_def field_simps abs_le_iff)
  have D0: "0 \<le> D"
    using assms by (simp add: D_def py_round_nonneg)
  have "\<bar>fl_round D - D\<bar> \<le> D / 2 ^ 53"
    using fl_round_err [of D] D0 by simp
  moreover have "D \<le> q + 1 / 200"
    using near by linarith
  then have "D / 2 ^ 53 \<le> (q + 1 / 200) / 2 ^ 53"
    by (rule divide_right_mono) simp
  ultimately have "\<bar>fl_round D - q\<bar> \<le> 1 / 200 + (q + 1 / 200) / 2 ^ 53"
    using near by linarith
  then show ?thesis
    by (simp add: py_round2_def D_def)
qed

lemma float_rate_err:
  assumes "0 < d"
  shows "\<bar>py_round2 (fl_div (fl_round (real k)) (fl_div (total_seconds d) 3600))
            - real k / hours_of d\<bar>
           \<le> 1 / 200 + (real k / hours_of d + 1) / 2 ^ 49"
proof -
  define E where "E = real k / hours_of d"
  define q where "q = fl_div (fl_round (real k)) (fl_div (total_seconds d) 3600)"
  have E: "0 \<le> E"
    using assms by (simp add: E_def hours_of_def)
  have qe: "\<bar>q - E\<bar> \<le> E / 2 ^ 50"
    unfolding q_def E_def by (rule float_quotient_err) (use assms in simp_all)
  have "0 \<le> fl_div (total_seconds d) 3600"
    using assms float_hours_pos_iff [of d] by simp
  moreover have "0 \<le> fl_round (real k)"
    by (rule fl_round_nonneg) simp
  ultimately have q0: "0 \<le> q"
    unfolding q_def by (simp only: fl_div_nonneg)
  have re: "\<bar>py_round2 q - q\<bar> \<le> 1 / 200 + (q + 1 / 200) / 2 ^ 53"
    using q0 by (rule py_round2_err)
  have "q \<le> E + E / 2 ^ 50"
    using qe by linarith
  then have "(q + 1 / 200) / 2 ^ 53 \<le> (E + E / 2 ^ 50 + 1 / 200) / 2 ^ 53"
    by (intro divide_right_mono) simp_all
  with re qe have "\<bar>py_round2 q - E\<bar>
      \<le> 1 / 200 + (E + E / 2 ^ 50 + 1 / 200) / 2 ^ 53 + E / 2 ^ 50"
    by linarith
  also have "\<dots> \<le> 1 / 200 + (E + 1) / 2 ^ 49"
    using E by (simp add: field_simps)
  finally show ?thesis
    by (simp add: q_def E_def)
qed

text \<open>Under a clock that never runs backwards the result is the specified rate, rounded.\<close>

lemma hourly_rate_sorted_err:
  fixes kept :: "datetime list"
  assumes s: "sorted kept" and w: "0 < w"
  defines "r \<equiv> (if length kept \<le> 1
                then py_round2 (fl_div (fl_round (real (length kept))) (fl_div (total_seconds w) 3600))
                else if hd kept < last kept
                then py_round2 (fl_div (fl_round (real (length kept)))
                                  (fl_div (total_seconds (last kept - hd kept)) 3600))
                else 0)"
  shows "\<bar>r - spec_hourly_rate w kept\<bar> \<le> 1 / 200 + (spec_hourly_rate w kept + 1) / 2 ^ 49"
proof (cases "length kept \<le> 1")
  case True
  then show ?thesis
    using float_rate_err [OF w, of "length kept"]
    by (simp add: r_def spec_hourly_rate_def)
next
  case False
  then have ne: "kept \<noteq> []" by auto
  have mm: "Max (set kept) = last kept" "Min (set kept) = hd kept"
    using s ne by (simp_all add: sorted_hd_Min sorted_last_Max)
  have le: "hd kept \<le> last kept"
    using s ne by (rule sorted_hd_le_last)
  show ?thesis
  proof (cases "hd kept < last kept")
    case True
    then have d: "0 < last kept - hd kept" by simp
    then have "hours_of (last kept - hd kept) \<noteq> 0"
      by (simp add: hours_of_def)
    then show ?thesis
      using float_rate_err [OF d, of "length kept"] True False
      by (simp add: r_def spec_hourly_rate_def mm Let_def)
  next
    case eq: False
    with le have "last kept - hd kept = 0" by simp
    then show ?thesis
      using eq False by (simp add: r_def spec_hourly_rate_def mm Let_def hours_of_def)
  qed
qed

lemma py_round_int: "py_round (real_of_int k) = k"
  by (simp add: py_round_def)

lemma window_init: "window (RateAverager_init 1) = 3600000000"
proof -
  have "py_round (real_of_int 3600000000) = 3600000000" by (rule py_round_int)
  then show ?thesis by (simp add: RateAverager_init_def)
qed

lemma ra_inv_init: "ra_inv clk (RateAverager_init wh, n)"
  by (simp add: ra_inv_def RateAverager_init_def)

text \<open>
  Seven events over 537.6 seconds: the exact rate is 46.875 per hour, a tie between 46.87
  and 46.88. The float quotient falls just below it, and the result is the double nearest
  to 46.87.
\<close>

lemma hourly_rate_tie_example:
  "hourly_rate (\<lambda>i. 537600000)
     (\<lparr>events = [0, 0, 0, 0, 0, 0, 537600000], window = 3600000000, last_total = Some 7\<rparr>, 0)
     = Inr (6596366079214223 / 140737488355328,
            \<lparr>events = [0, 0, 0, 0, 0, 0, 537600000], window = 3600000000, last_total = Some 7\<rparr>, 1)"
  and "spec_hourly_rate 3600000000 [0, 0, 0, 0, 0, 0, 537600000] = 375 / 8"
proof -
  have r: "py_round2 (fl_div (fl_round 7) (fl_div (total_seconds 537600000) 3600))
             = 6596366079214223 / 140737488355328"
    by code_simp
  show "hourly_rate (\<lambda>i. 537600000)
     (\<lparr>events = [0, 0, 0, 0, 0, 0, 537600000], window = 3600000000, last_total = Some 7\<rparr>, 0)
     = Inr (6596366079214223 / 140737488355328,
            \<lparr>events = [0, 0, 0, 0, 0, 0, 537600000], window = 3600000000, last_total = Some 7\<rparr>, 1)"
    using hourly_rate_eq
      [of "\<lparr>events = [0, 0, 0, 0, 0, 0, 537600000], window = 3600000000, last_total = Some 7\<rparr>"
          "\<lambda>i. 537600000" 0]
    by (simp add: r)
  show "spec_hourly_rate 3600000000 [0, 0, 0, 0, 0, 0, 537600000] = 375 / 8"
    by (simp add: spec_hourly_rate_def hours_of_def)
qed

text \<open>
  A clock that steps back, as local time does at the end of daylight saving: the first
  event is stamped 01:59:00 and the second, two minutes later, 01:01:00. Both are within
  the window at the query, the time elapsed between the oldest and the newest is 58
  minutes, not 0, and the specified rate is 60/29 per hour; \<^verbatim>\<open>hourly_rate\<close> returns 0,
  since the last event of the queue is not later than the first.
\<close>

theorem hourly_rate_step_back_counterexample:
  "run_calls (\<lambda>i. if i < 2 then 7140000000 else 3660000000) [Update 0, Update 1, Update 2]
       (RateAverager_init 1, 0)
     = Inr (\<lparr>events = [7140000000, 3660000000], window = 3600000000, last_total = Some 2\<rparr>, 4)
   \<and> hourly_rate (\<lambda>i. if i < 2 then 7140000000 else 3660000000)
         (\<lparr>events = [7140000000, 3660000000], window = 3600000000, last_total = Some 2\<rparr>, 4)
       = Inr (0, \<lparr>events = [7140000000, 3660000000], window = 3600000000, last_total = Some 2\<rparr>, 5)
   \<and> hours_of (Max (set [7140000000, 3660000000]) - Min (set [7140000000, 3660000000])) \<noteq> 0
   \<and> spec_hourly_rate 3600000000 [7140000000, 3660000000] = 60 / 29"
proof -
  let ?clk = "\<lambda>i::nat. if i < 2 then 7140000000 else (3660000000::int)"
  let ?ra = "\<lparr>events = [7140000000, 3660000000], window = 3600000000, last_total = Some 2\<rparr>"
  have i: "RateAverager_init 1 = \<lparr>events = [], window = 3600000000, last_total = None\<rparr>"
    using window_init by (simp add: RateAverager_init_def)
  have run: "run_calls ?clk [Update 0, Update 1, Update 2] (RateAverager_init 1, 0) = Inr (?ra, 4)"
    by (simp add: i update_from_total_def trim_def append_now_eq upt_rec)
  have rate: "hourly_rate ?clk (?ra, 4) = Inr (0, ?ra, 5)"
    using hourly_rate_eq [of ?ra ?clk 4] by simp
  have el: "hours_of (Max (set [7140000000, 3660000000]) - Min (set [7140000000, 3660000000])) \<noteq> 0"
    by (simp add: hours_of_def)
  have spec: "spec_hourly_rate 3600000000 [7140000000, 3660000000] = 60 / 29"
    by (simp add: spec_hourly_rate_def hours_of_def)
  from run rate el spec show ?thesis by simp
qed

text \<open>
  C4 (as amended). With a positive window, after every sequence of calls of
  \<^verbatim>\<open>update_from_total\<close> and \<^verbatim>\<open>hourly_rate\<close> on a new estimator, for every clock and at
  every query time, \<^verbatim>\<open>hourly_rate\<close> returns. It first removes events from the front of
  the queue while the front event is older than the window. On the retained events it
  returns, in double arithmetic, \<^verbatim>\<open>round(count / window_hours, 2)\<close> when 0 or 1 events are
  retained, otherwise \<^verbatim>\<open>round(count / elapsed_hours, 2)\<close> where the elapsed time runs from
  the first to the last event of the queue, when that time is positive, and 0 when it is
  not. The result is never negative. When the clock never runs backwards, the retained
  events are exactly those not older than the window, and the result is within 0.005,
  plus a float error of at most \<open>(rate + 1) / 2 ^ 49\<close>, of the rate as the specification
  words it, between the oldest and the newest retained event.
\<close>

theorem hourly_rate_spec:
  assumes "0 < window (RateAverager_init window_hours)"
  shows "\<exists>ra n. run_calls clk cs (RateAverager_init window_hours, n0) = Inr (ra, n)
           \<and> window ra = window (RateAverager_init window_hours)
           \<and> (let kept = trim_loop (clk n - window ra) (events ra);
                   count = fl_round (real (length kept));
                   r = (if length kept \<le> 1
                        then py_round2 (fl_div count (fl_div (total_seconds (window ra)) 3600))
                        else if hd kept < last kept
                        then py_round2 (fl_div count
                                          (fl_div (total_seconds (last kept - hd kept)) 3600))
                        else 0)
               in hourly_rate clk (ra, n) = Inr (r, ra\<lparr>events := kept\<rparr>, Suc n)
                  \<and> 0 \<le> r
                  \<and> (mono clk \<longrightarrow>
                        kept = filter (\<lambda>e. clk n - window ra \<le> e) (events ra)
                        \<and> \<bar>r - spec_hourly_rate (window ra) kept\<bar>
                            \<le> 1 / 200 + (spec_hourly_rate (window ra) kept + 1) / 2 ^ 49))"
proof -
  let ?w = "window (RateAverager_init window_hours)"
  let ?s0 = "(RateAverager_init window_hours, n0)"
  have w0: "window (fst ?s0) \<noteq> 0"
    using assms by simp
  obtain s' where run: "run_calls clk cs ?s0 = Inr s'" and win: "window (fst s') = ?w"
    using run_calls_window [OF w0, of clk cs] by auto
  obtain ra n where s': "s' = (ra, n)" by (cases s')
  have w: "0 < window ra"
    using win assms by (simp add: s')
  define kept where "kept = trim_loop (clk n - window ra) (events ra)"
  define r where "r = (if length kept \<le> 1
                        then py_round2 (fl_div (fl_round (real (length kept)))
                                          (fl_div (total_seconds (window ra)) 3600))
                        else if hd kept < last kept
                        then py_round2 (fl_div (fl_round (real (length kept)))
                                          (fl_div (total_seconds (last kept - hd kept)) 3600))
                        else 0)"
  have rate: "hourly_rate clk (ra, n) = Inr (r, ra\<lparr>events := kept\<rparr>, Suc n)"
    using hourly_rate_eq [of ra clk n] w by (simp add: r_def kept_def)
  have nonneg: "0 \<le> r"
    using w by (simp add: r_def float_rate_nonneg)
  have sorted_case: "kept = filter (\<lambda>e. clk n - window ra \<le> e) (events ra)
        \<and> \<bar>r - spec_hourly_rate (window ra) kept\<bar>
            \<le> 1 / 200 + (spec_hourly_rate (window ra) kept + 1) / 2 ^ 49"
    if m: "mono clk"
  proof -
    have "ra_inv clk s'"
      using run_calls_inv [OF m, of ?s0 cs] w0 run by (auto simp: ra_inv_init)
    then have srt: "sorted (events ra)"
      by (simp add: s' ra_inv_def)
    then have k: "kept = filter (\<lambda>e. clk n - window ra \<le> e) (events ra)"
      by (simp add: kept_def trim_loop_sorted)
    with srt have sk: "sorted kept"
      by (simp add: sorted_wrt_filter)
    from hourly_rate_sorted_err [OF sk w] k show ?thesis
      by (simp add: r_def)
  qed
  show ?thesis
    using run win s' rate nonneg sorted_case
    unfolding Let_def kept_def r_def by auto
qed

theorem hourly_rate_spec_witness:
  "mono (\<lambda>i. int i * 600000000) \<and> 0 < window (RateAverager_init 1)
   \<and> run_calls (\<lambda>i. int i * 600000000) [Update 0, Update 2] (RateAverager_init 1, 0)
       = Inr (\<lparr>events = [0, 600000000], window = 3600000000, last_total = Some 2\<rparr>, 3)
   \<and> hourly_rate (\<lambda>i. int i * 600000000)
         (\<lparr>events = [0, 600000000], window = 3600000000, last_total = Some 2\<rparr>, 3)
       = Inr (12, \<lparr>events = [0, 600000000], window = 3600000000, last_total = Some 2\<rparr>, 4)
   \<and> spec_hourly_rate 3600000000 [0, 600000000] = 12"
proof -
  let ?clk = "\<lambda>i. int i * 600000000"
  let ?ra = "\<lparr>events = [0, 600000000], window = 3600000000, last_total = Some 2\<rparr>"
  have m: "mono ?clk"
    by (simp add: mono_def)
  have w: "0 < window (RateAverager_init 1)"
    by (simp add: window_init)
  have i: "RateAverager_init 1 = \<lparr>events = [], window = 3600000000, last_total = None\<rparr>"
    using window_init by (simp add: RateAverager_init_def)
  have run: "run_calls ?clk [Update 0, Update 2] (RateAverager_init 1, 0) = Inr (?ra, 3)"
    by (simp add: i update_from_total_def trim_def append_now_eq upt_rec)
  have r: "py_round2 (fl_div (fl_round 2) (fl_div (total_seconds 600000000) 3600)) = 12"
    by code_simp
  have spec: "spec_hourly_rate 3600000000 [0, 600000000] = 12"
    by (simp add: spec_hourly_rate_def hours_of_def)
  from hourly_rate_spec [OF w, of ?clk "[Update 0, Update 2]" 0] run
  have "hourly_rate ?clk (?ra, 3) = Inr (12, ?ra, 4)"
    by (simp add: Let_def r)
  with m w run spec show ?thesis by simp
qed

section \<open>The window's slots\<close>

lemma liveness_inv_cong:
  assumes "rate_calc a = rate_calc b" and "last_data_ts a = last_data_ts b"
    and "last_cycle_ts a = last_cycle_ts b"
  shows "liveness_inv a = liveness_inv b"
  using assms by (simp add: liveness_inv_def)

lemma update_plot_state: "fst (update_plot clk s) = fst s"
  by (cases s) (simp add: update_plot_def)

lemma liveness_inv_load_job_data:
  "liveness_inv (fst (load_job_data clk j (st, n))) = liveness_inv st"
  by (rule liveness_inv_cong) (simp_all add: load_job_data_def Let_def update_plot_state)

lemma liveness_inv_load_jobs:
  "liveness_inv (fst (load_jobs clk (st, n))) = liveness_inv st"
proof (cases "sort_key (\<lambda>j. - j_started_at j) (jobs (db st))")
  case Nil
  then show ?thesis
    by (simp add: load_jobs_def liveness_inv_def)
next
  case (Cons r rs)
  then show ?thesis
    by (simp add: load_jobs_def liveness_inv_load_job_data) (simp add: liveness_inv_def)
qed

lemma liveness_inv_init: "liveness_inv (fst (Dashboard_init clk js ss))"
  unfolding Dashboard_init_def liveness_inv_load_jobs
  by (simp add: liveness_inv_def window_init)

lemma Dashboard_init_empty:
  "Dashboard_init clk [] [] =
     (\<lparr>db = \<lparr>jobs = [], samples = [], durable_jobs = [], durable_samples = []\<rparr>,
       current_job_id = None,
       rate_calc = \<lparr>events = [], window = 3600000000, last_total = None\<rparr>,
       last_values = \<lparr>v_accepted = 0, v_rejected = 0, v_total = 0, v_rate = 0\<rparr>,
       last_data_ts = None,
       last_cycle_ts = None,
       prev_total = None,
       pending = None,
       health_tag = (Msg_OK, True),
       rate_history = [],
       time_history = []\<rparr>, 0)"
  using window_init
  by (simp add: Dashboard_init_def load_jobs_def init_db_def commit_def RateAverager_init_def)

text \<open>What \<^verbatim>\<open>on_data\<close> returns, field by field.\<close>

lemma on_data_result:
  fixes d :: "string \<Rightarrow> int option"
  assumes "window (rate_calc st) \<noteq> 0"
  defines "a \<equiv> get_or d ''accepted'' 0" and "r \<equiv> get_or d ''rejected'' 0"
  defines "tot \<equiv> get_or d ''total'' (a + r)"
  shows "\<exists>st' n'. on_data clk now d (st, n) = Inr (st', n')
           \<and> last_data_ts st' = Some now
           \<and> last_cycle_ts st' =
               (if (case prev_total st of None \<Rightarrow> True | Some p \<Rightarrow> tot > p) then Some now
                else last_cycle_ts st)
           \<and> prev_total st' = Some tot
           \<and> v_accepted (last_values st') = a
           \<and> v_rejected (last_values st') = r
           \<and> v_total (last_values st') = tot
           \<and> window (rate_calc st') = window (rate_calc st)"
proof -
  let ?s = "update_from_total clk tot (rate_calc st, n)"
  have w: "window (fst ?s) = window (rate_calc st)"
    by (simp add: window_update)
  with assms(1) obtain x where x: "hourly_rate clk ?s = Inr (x, trim clk ?s)"
    using hourly_rate_defined [of ?s clk] by auto
  obtain rc n' where t: "trim clk ?s = (rc, n')" by (cases "trim clk ?s")
  have "window rc = window (rate_calc st)"
    using window_trim [of clk ?s] w t by simp
  then show ?thesis
    using x t unfolding a_def r_def tot_def by (simp add: on_data_def Let_def)
qed

lemma append_sample_fields:
  assumes "append_sample clk a r t x (st, n) = Inr (st', n')"
  shows "rate_calc st' = rate_calc st" "last_data_ts st' = last_data_ts st" "last_cycle_ts st' = last_cycle_ts st"
  using assms by (auto simp: append_sample_def Let_def split: option.splits if_splits)

lemma append_sample_defined:
  "\<exists>st' n'. append_sample clk a r t x (st, n) = Inr (st', n')"
proof (cases "current_job_id st")
  case None
  then show ?thesis by (simp add: append_sample_def)
next
  case (Some j)
  then show ?thesis by (simp add: append_sample_def Let_def)
qed

lemma handle_inv:
  assumes "liveness_inv st"
  shows "\<exists>st' n'. handle clk e (st, n) = Inr (st', n') \<and> liveness_inv st'"
proof (cases e)
  case (OnState c now)
  with assms show ?thesis by (simp add: on_state_def liveness_inv_def)
next
  case (OnData d now)
  have w: "window (rate_calc st) \<noteq> 0" using assms by (simp add: liveness_inv_def)
  obtain st' n' where od: "on_data clk now d (st, n) = Inr (st', n')"
    and "last_data_ts st' = Some now" and "window (rate_calc st') = window (rate_calc st)"
    using on_data_result [OF w, of clk now d n] by blast
  with assms have "liveness_inv st'" by (simp add: liveness_inv_def)
  with OnData od show ?thesis by simp
next
  case (CheckHealth dt ct now)
  have "liveness_inv (check_health dt ct now st) = liveness_inv st"
    by (rule liveness_inv_cong) (simp_all add: check_health_def split: prod.splits)
  with assms CheckHealth show ?thesis by simp
next
  case LogSampleTick
  obtain st' n' where a: "log_sample_tick clk (st, n) = Inr (st', n')"
    unfolding log_sample_tick_def Let_def prod.case using append_sample_defined by blast
  then have "liveness_inv st'"
    using assms append_sample_fields [of clk _ _ _ _ st n st' n']
    by (simp add: log_sample_tick_def Let_def liveness_inv_def)
  with a LogSampleTick show ?thesis by simp
next
  case (NewJob name ok)
  show ?thesis
  proof (cases "\<not> ok \<or> strip name = []")
    case True
    with assms NewJob show ?thesis by (simp add: new_job_def)
  next
    case False
    define st1 where "st1 = st\<lparr>db := commit ((db st)\<lparr>jobs := jobs (db st) @
      [\<lparr>j_id = next_job_id (jobs (db st)), j_name = strip name, j_started_at = clk n\<rparr>]\<rparr>)\<rparr>"
    have "liveness_inv st1 = liveness_inv st"
      by (rule liveness_inv_cong) (simp_all add: st1_def)
    with assms have "liveness_inv (fst (load_jobs clk (st1, Suc n)))"
      by (simp add: liveness_inv_load_jobs)
    moreover have "new_job clk (name, ok) (st, n) = Inr (load_jobs clk (st1, Suc n))"
      using False by (simp add: new_job_def Let_def st1_def)
    ultimately show ?thesis
      using NewJob by (cases "load_jobs clk (st1, Suc n)") simp
  qed
next
  case (SelectJob jid)
  show ?thesis
  proof (cases jid)
    case None
    with assms SelectJob show ?thesis by (simp add: select_job_def)
  next
    case (Some j)
    have "liveness_inv (st\<lparr>current_job_id := Some j\<rparr>) = liveness_inv st"
      by (rule liveness_inv_cong) simp_all
    with assms have "liveness_inv (fst (load_job_data clk j (st\<lparr>current_job_id := Some j\<rparr>, n)))"
      by (simp add: liveness_inv_load_job_data)
    then show ?thesis
      using SelectJob Some
      by (cases "load_job_data clk j (st\<lparr>current_job_id := Some j\<rparr>, n)") (simp add: select_job_def)
  qed
next
  case UpdatePlot
  with assms show ?thesis
    by (cases "update_plot clk (st, n)") (use update_plot_state [of clk "(st, n)"] in auto)
qed

lemma run_events_inv:
  "liveness_inv st \<Longrightarrow> \<exists>st' n'. run_events clk es (st, n) = Inr (st', n') \<and> liveness_inv st'"
proof (induction es arbitrary: st n)
  case Nil
  then show ?case by simp
next
  case (Cons e es)
  obtain st1 n1 where h: "handle clk e (st, n) = Inr (st1, n1)" and i: "liveness_inv st1"
    using handle_inv [OF Cons.prems] by blast
  show ?case
    using Cons.IH [OF i, of n1] h by simp
qed

text \<open>
  C1. On a health tick at which both timeouts have expired (the data clock is set and older
  than the data timeout, the cycle clock is set and older than the cycle timeout), the tag
  shows the data timeout, and no cycle timeout whatever the threshold: the data check takes
  priority.
\<close>

theorem check_health_data_timeout_first:
  assumes "last_data_ts st = Some td" and "now - td > data_timeout"
    and "last_cycle_ts st = Some tc" and "now - tc > cycle_timeout"
  shows "health_tag (check_health data_timeout cycle_timeout now st)
           = (Msg_DATA_TIMEOUT data_timeout, False)
         \<and> (\<forall>c. fst (health_tag (check_health data_timeout cycle_timeout now st))
                \<noteq> Msg_NO_CYCLES c)"
  using assms by (simp add: check_health_def)

theorem check_health_data_timeout_first_witness:
  "last_data_ts ((fst (Dashboard_init (\<lambda>i. 0) [] []))\<lparr>last_data_ts := Some 0, last_cycle_ts := Some 0\<rparr>)
     = Some 0
   \<and> (100::real) - 0 > 5 \<and> (100::real) - 0 > 60
   \<and> health_tag (check_health 5 60 100
         ((fst (Dashboard_init (\<lambda>i. 0) [] []))\<lparr>last_data_ts := Some 0, last_cycle_ts := Some 0\<rparr>))
       = (Msg_DATA_TIMEOUT 5, False)"
proof -
  let ?st = "(fst (Dashboard_init (\<lambda>i. 0) [] []))\<lparr>last_data_ts := Some 0, last_cycle_ts := Some 0\<rparr>"
  have d: "last_data_ts ?st = Some 0" and c: "last_cycle_ts ?st = Some 0"
    by simp_all
  have t1: "(100::real) - 0 > 5" and t2: "(100::real) - 0 > 60"
    by simp_all
  from check_health_data_timeout_first [OF d t1 c t2] d t1 t2
  show ?thesis by simp
qed

text \<open>
  A sample in which the device reports the total 0 beside 3 accepted and 1 rejected parts:
  the total that \<^verbatim>\<open>on_data\<close> works with is 4, not the reported 0, since a reported 0 is
  falsy for \<^verbatim>\<open>or\<close>.
\<close>

theorem on_data_total_counterexample:
  "[''accepted'' \<mapsto> 3, ''rejected'' \<mapsto> 1, ''total'' \<mapsto> (0::int)] ''total'' = Some 0
   \<and> (\<exists>st' n'. on_data (\<lambda>i. 0) 0 [''accepted'' \<mapsto> 3, ''rejected'' \<mapsto> 1, ''total'' \<mapsto> 0]
                 (Dashboard_init (\<lambda>i. 0) [] []) = Inr (st', n')
             \<and> v_total (last_values st') = 4 \<and> prev_total st' = Some 4)"
proof -
  let ?d = "[''accepted'' \<mapsto> 3, ''rejected'' \<mapsto> 1, ''total'' \<mapsto> (0::int)]"
  have "get_or ?d ''total'' (get_or ?d ''accepted'' 0 + get_or ?d ''rejected'' 0) = 4"
    by (simp add: get_or_def)
  moreover have "window (rate_calc (fst (Dashboard_init (\<lambda>i. 0) [] []))) \<noteq> 0"
    using liveness_inv_init [of "\<lambda>i. 0" "[]" "[]"] by (simp add: liveness_inv_def)
  ultimately show ?thesis
    using on_data_result [of "fst (Dashboard_init (\<lambda>i. 0) [] [])" "\<lambda>i. 0" 0 ?d
        "snd (Dashboard_init (\<lambda>i. 0) [] [])"]
    by auto
qed

text \<open>
  C5 (as amended). For every received sample on which \<^verbatim>\<open>on_data\<close> returns, the total
  used for the derivation (kept as \<^verbatim>\<open>prev_total\<close> and in \<^verbatim>\<open>last_values\<close>) equals the
  device-reported total when a total is reported and is not 0, and equals accepted +
  rejected (each taken as 0 when not reported) when no total is reported or the reported
  total is 0. \<^verbatim>\<open>on_data\<close> returns whenever the estimator's window is not zero.
\<close>

theorem on_data_total:
  assumes "window (rate_calc st) \<noteq> 0"
  shows "\<exists>st' n'. on_data clk now d (st, n) = Inr (st', n')
           \<and> prev_total st' = Some (v_total (last_values st'))
           \<and> v_accepted (last_values st') = (case d ''accepted'' of None \<Rightarrow> 0 | Some a \<Rightarrow> a)
           \<and> v_rejected (last_values st') = (case d ''rejected'' of None \<Rightarrow> 0 | Some r \<Rightarrow> r)
           \<and> (\<forall>t. d ''total'' = Some t \<and> t \<noteq> 0 \<longrightarrow> v_total (last_values st') = t)
           \<and> (d ''total'' = None \<or> d ''total'' = Some 0 \<longrightarrow>
                 v_total (last_values st') = v_accepted (last_values st') + v_rejected (last_values st'))"
  using on_data_result [OF assms, of clk now d n]
  by (auto simp: get_or_def split: option.splits)

theorem on_data_total_witness:
  "\<exists>st' n'. on_data (\<lambda>i. 0) 0 [''accepted'' \<mapsto> 3, ''rejected'' \<mapsto> 1, ''total'' \<mapsto> 9]
                 (Dashboard_init (\<lambda>i. 0) [] []) = Inr (st', n')
             \<and> v_total (last_values st') = 9 \<and> prev_total st' = Some 9"
proof -
  have "window (rate_calc (fst (Dashboard_init (\<lambda>i. 0) [] []))) \<noteq> 0"
    using liveness_inv_init [of "\<lambda>i. 0" "[]" "[]"] by (simp add: liveness_inv_def)
  from on_data_total [OF this, of "\<lambda>i. 0" 0 "[''accepted'' \<mapsto> 3, ''rejected'' \<mapsto> 1, ''total'' \<mapsto> 9]"
      "snd (Dashboard_init (\<lambda>i. 0) [] [])"]
  show ?thesis by auto
qed

text \<open>
  A name of two spaces is empty after trimming, and \<^verbatim>\<open>new_job\<close> does not fail on it: it
  returns normally, with the state it was called in.
\<close>

theorem new_job_blank_name_counterexample:
  "strip ''  '' = []
   \<and> \<not> isl (new_job (\<lambda>i. 0) (''  '', True) (Dashboard_init (\<lambda>i. 0) [] []))
   \<and> new_job (\<lambda>i. 0) (''  '', True) (Dashboard_init (\<lambda>i. 0) [] [])
       = Inr (Dashboard_init (\<lambda>i. 0) [] [])"
  by (simp add: new_job_def strip_def isspace_def Dashboard_init_empty)

text \<open>
  C7 (as amended). For every name that is empty after trimming whitespace, \<^verbatim>\<open>new_job\<close>
  rejects the request at once and silently: it returns without raising and without any
  change of state, so no job row is inserted and the clock is not even read.
\<close>

theorem new_job_blank_name:
  assumes "strip name = []"
  shows "new_job clk (name, ok) (st, n) = Inr (st, n)"
  using assms by (simp add: new_job_def)

theorem new_job_blank_name_witness:
  "strip [CHR 0x09, CHR '' ''] = []
   \<and> new_job (\<lambda>i. 0) ([CHR 0x09, CHR '' ''], True) (Dashboard_init (\<lambda>i. 0) [] [])
       = Inr (Dashboard_init (\<lambda>i. 0) [] [])"
proof -
  have s: "strip [CHR 0x09, CHR '' ''] = []"
    by (simp add: strip_def isspace_def)
  from new_job_blank_name [OF s, of "\<lambda>i. 0" True "fst (Dashboard_init (\<lambda>i. 0) [] [])"
      "snd (Dashboard_init (\<lambda>i. 0) [] [])"] s
  show ?thesis by simp
qed

text \<open>
  C8. In every state that the window reaches from its creation through any sequence of
  events, a health tick while the data clock is still unset shows OK, whatever the time of
  the tick and the thresholds. (Every such sequence of events is handled without an
  exception.)
\<close>

theorem check_health_ok_before_data:
  "\<exists>st n. run_events clk es (Dashboard_init clk js ss) = Inr (st, n)
     \<and> (last_data_ts st = None \<longrightarrow>
          health_tag (check_health data_timeout cycle_timeout now st) = (Msg_OK, True))"
proof -
  obtain st0 n0 where i0: "Dashboard_init clk js ss = (st0, n0)"
    by (cases "Dashboard_init clk js ss")
  have "liveness_inv st0"
    using liveness_inv_init [of clk js ss] by (simp add: i0)
  then obtain st n where r: "run_events clk es (st0, n0) = Inr (st, n)"
    and i: "liveness_inv st"
    using run_events_inv by blast
  have "health_tag (check_health data_timeout cycle_timeout now st) = (Msg_OK, True)"
    if "last_data_ts st = None"
    using that i by (simp add: check_health_def liveness_inv_def)
  with r show ?thesis by (simp add: i0)
qed

theorem check_health_ok_before_data_witness:
  "\<exists>st n. run_events (\<lambda>i. 0) [CheckHealth 5 60 1000, LogSampleTick] (Dashboard_init (\<lambda>i. 0) [] [])
            = Inr (st, n)
     \<and> last_data_ts st = None
     \<and> health_tag (check_health 5 60 100000 st) = (Msg_OK, True)"
proof -
  let ?es = "[CheckHealth 5 60 1000, LogSampleTick]"
  obtain st n where r: "run_events (\<lambda>i. 0) ?es (Dashboard_init (\<lambda>i. 0) [] []) = Inr (st, n)"
    and h: "last_data_ts st = None \<longrightarrow> health_tag (check_health 5 60 100000 st) = (Msg_OK, True)"
    using check_health_ok_before_data [of "\<lambda>i. 0" ?es "[]" "[]" 5 60 100000]
    by auto
  have "run_events (\<lambda>i. 0) ?es (Dashboard_init (\<lambda>i. 0) [] [])
          = Inr (check_health 5 60 1000 (fst (Dashboard_init (\<lambda>i. 0) [] [])), 0)"
    by (simp add: Dashboard_init_empty log_sample_tick_def append_sample_def check_health_def)
  with r have "st = check_health 5 60 1000 (fst (Dashboard_init (\<lambda>i. 0) [] []))" by simp
  then have "last_data_ts st = None"
    by (simp add: check_health_def Dashboard_init_empty)
  with r h show ?thesis by blast
qed

text \<open>
  C9. A call of \<^verbatim>\<open>append_sample\<close> while no job is current is a silent no-op: it returns
  without raising and with the state unchanged, so no sample row is inserted and the
  pending-insert counter is what it was.
\<close>

theorem append_sample_no_job:
  assumes "current_job_id st = None"
  shows "append_sample clk accepted rejected tot rate (st, n) = Inr (st, n)"
  using assms by (simp add: append_sample_def)

theorem append_sample_no_job_witness:
  "current_job_id (fst (Dashboard_init (\<lambda>i. 0) [] [])) = None
   \<and> append_sample (\<lambda>i. 0) 1 2 3 4 (Dashboard_init (\<lambda>i. 0) [] [])
       = Inr (Dashboard_init (\<lambda>i. 0) [] [])"
proof -
  have c: "current_job_id (fst (Dashboard_init (\<lambda>i. 0) [] [])) = None"
    by (simp add: Dashboard_init_empty)
  from append_sample_no_job [OF c, of "\<lambda>i. 0" 1 2 3 4 "snd (Dashboard_init (\<lambda>i. 0) [] [])"] c
  show ?thesis by simp
qed

text \<open>
  C10. On the first sample ever received (no previous total recorded) \<^verbatim>\<open>on_data\<close> sets
  the cycle clock to the time of the sample, whatever the total, together with the data
  clock. The cycle countdown therefore runs from that sample: a later health tick at which
  the data is still fresh and more than the cycle timeout has passed since the sample
  reports the cycle timeout.
\<close>

theorem on_data_first_sample_starts_cycle_clock:
  assumes "prev_total st = None" and "window (rate_calc st) \<noteq> 0"
  shows "\<exists>st' n'. on_data clk now d (st, n) = Inr (st', n')
           \<and> last_cycle_ts st' = Some now \<and> last_data_ts st' = Some now
           \<and> (\<forall>dt ct t. t - now \<le> dt \<and> t - now > ct \<longrightarrow>
                 health_tag (check_health dt ct t st') = (Msg_NO_CYCLES ct, False))"
  using on_data_result [OF assms(2), of clk now d n] assms(1)
  by (auto simp: check_health_def)

theorem on_data_first_sample_witness:
  "prev_total (fst (Dashboard_init (\<lambda>i. 0) [] [])) = None
   \<and> (\<exists>st' n'. on_data (\<lambda>i. 0) 42 [''total'' \<mapsto> 0] (Dashboard_init (\<lambda>i. 0) [] []) = Inr (st', n')
        \<and> last_cycle_ts st' = Some 42
        \<and> health_tag (check_health 5 60 103 st') = (Msg_DATA_TIMEOUT 5, False)
        \<and> health_tag (check_health 100 60 103 st') = (Msg_NO_CYCLES 60, False))"
proof -
  have w: "window (rate_calc (fst (Dashboard_init (\<lambda>i. 0) [] []))) \<noteq> 0"
    using liveness_inv_init [of "\<lambda>i. 0" "[]" "[]"] by (simp add: liveness_inv_def)
  have p: "prev_total (fst (Dashboard_init (\<lambda>i. 0) [] [])) = None"
    by (simp add: Dashboard_init_empty)
  from on_data_first_sample_starts_cycle_clock [OF p w, of "\<lambda>i. 0" 42 "[''total'' \<mapsto> 0]"
      "snd (Dashboard_init (\<lambda>i. 0) [] [])"]
  obtain st' n' where o: "on_data (\<lambda>i. 0) 42 [''total'' \<mapsto> 0] (Dashboard_init (\<lambda>i. 0) [] []) = Inr (st', n')"
    and c: "last_cycle_ts st' = Some 42" and d: "last_data_ts st' = Some 42"
    and h: "\<forall>dt ct t. t - 42 \<le> dt \<and> t - 42 > ct \<longrightarrow>
                 health_tag (check_health dt ct t st') = (Msg_NO_CYCLES ct, False)"
    by auto
  have "health_tag (check_health 100 60 103 st') = (Msg_NO_CYCLES 60, False)"
    using h by simp
  moreover have "health_tag (check_health 5 60 103 st') = (Msg_DATA_TIMEOUT 5, False)"
    using d by (simp add: check_health_def)
  ultimately show ?thesis
    using p o c by auto
qed

section \<open>Buffered commits of the sample log\<close>

lemma sample_rows_snoc:
  "sample_rows j clk n (vs @ [(a, r, t, x)]) =
     sample_rows j clk n vs @
       [\<lparr>s_job_id = j, s_ts = clk (n + length vs), s_accepted = a, s_rejected = r,
         s_total = t, s_rate = x\<rparr>]"
  by (simp add: sample_rows_def)

lemma length_sample_rows: "length (sample_rows j clk n vs) = length vs"
  by (simp add: sample_rows_def)

lemma append_samples_snoc:
  "append_samples clk (vs @ [(a, r, t, x)]) s =
     (case append_samples clk vs s of Inl e \<Rightarrow> Inl e | Inr s' \<Rightarrow> append_sample clk a r t x s')"
proof (induction vs arbitrary: s)
  case Nil
  show ?case by (simp split: sum.splits)
next
  case (Cons v vs)
  obtain a' r' t' x' where v: "v = (a', r', t', x')" by (cases v)
  show ?case
    by (simp add: v Cons.IH split: sum.splits)
qed

lemma mod10_wrap: "(q::nat) mod 10 = 9 \<Longrightarrow> Suc q mod 10 = 0"
  by (simp add: mod_Suc)

lemma mod10_wrap_ge: "(q::nat) mod 10 = 9 \<Longrightarrow> \<not> Suc q < 10"
  using mod_less_eq_dividend [of q 10] by linarith

lemma mod10_step_lt: "(q::nat) mod 10 \<noteq> 9 \<Longrightarrow> q mod 10 + 1 < 10"
  using mod_less_divisor [of 10 q] by linarith

lemma mod10_step: "(q::nat) mod 10 \<noteq> 9 \<Longrightarrow> Suc q mod 10 = q mod 10 + 1"
  using mod_less_divisor [of 10 q] by (simp add: mod_Suc)

lemma mod10_step_small: "(q::nat) mod 10 \<noteq> 9 \<Longrightarrow> Suc q < 10 \<longleftrightarrow> q < 10"
  using mod_less [of q 10] by linarith

lemma append_samples_state:
  assumes job: "current_job_id st = Some j" "j \<noteq> 0"
    and fresh: "pending st = None \<or> pending st = Some 0"
  shows "\<exists>st'. append_samples clk vs (st, n) = Inr (st', n + length vs)
           \<and> current_job_id st' = Some j
           \<and> pending st' = (if vs = [] then pending st else Some (length vs mod 10))
           \<and> samples (db st') = samples (db st) @ sample_rows j clk n vs
           \<and> durable_samples (db st') =
               (if length vs < 10 then durable_samples (db st)
                else samples (db st) @ take (length vs - length vs mod 10) (sample_rows j clk n vs))"
proof (induction vs rule: rev_induct)
  case Nil
  show ?case by (simp add: job sample_rows_def)
next
  case (snoc v vs)
  obtain a r t x where v: "v = (a, r, t, x)" by (cases v)
  let ?q = "length vs"
  obtain st1 where run: "append_samples clk vs (st, n) = Inr (st1, n + ?q)"
    and j1: "current_job_id st1 = Some j"
    and p1: "pending st1 = (if vs = [] then pending st else Some (?q mod 10))"
    and s1: "samples (db st1) = samples (db st) @ sample_rows j clk n vs"
    and d1: "durable_samples (db st1) =
               (if ?q < 10 then durable_samples (db st)
                else samples (db st) @ take (?q - ?q mod 10) (sample_rows j clk n vs))"
    using snoc.IH by blast
  have p1': "(case pending st1 of None \<Rightarrow> 0 | Some p \<Rightarrow> p) = ?q mod 10"
    using p1 fresh by (auto split: option.splits)
  let ?row = "\<lparr>s_job_id = j, s_ts = clk (n + ?q), s_accepted = a, s_rejected = r,
               s_total = t, s_rate = x\<rparr>"
  have rows: "sample_rows j clk n (vs @ [v]) = sample_rows j clk n vs @ [?row]"
    by (simp add: v sample_rows_snoc)
  show ?case
  proof (cases "?q mod 10 = 9")
    case True
    then have m: "Suc ?q mod 10 = 0" by (rule mod10_wrap)
    have ge: "\<not> Suc ?q < 10" using True by (rule mod10_wrap_ge)
    have step: "append_sample clk a r t x (st1, n + ?q) =
            Inr (st1\<lparr>db := commit ((db st1)\<lparr>samples := samples (db st1) @ [?row]\<rparr>),
                     pending := Some 0\<rparr>, Suc (n + ?q))"
      using True by (simp add: append_sample_def j1 job(2) p1' Let_def)
    show ?thesis
      using ge by (simp add: append_samples_snoc v run step j1 m s1 sample_rows_snoc commit_def length_sample_rows)
  next
    case False
    then have lt: "?q mod 10 + 1 < 10" by (rule mod10_step_lt)
    have m: "Suc ?q mod 10 = ?q mod 10 + 1" using False by (rule mod10_step)
    have step: "append_sample clk a r t x (st1, n + ?q) =
            Inr (st1\<lparr>db := (db st1)\<lparr>samples := samples (db st1) @ [?row]\<rparr>,
                     pending := Some (?q mod 10 + 1)\<rparr>, Suc (n + ?q))"
      using lt by (simp add: append_sample_def j1 job(2) p1' Let_def)
    have small: "Suc ?q < 10 \<longleftrightarrow> ?q < 10" using False by (rule mod10_step_small)
    have tk: "Suc ?q - Suc ?q mod 10 = ?q - ?q mod 10" using m by simp
    have le: "?q - ?q mod 10 \<le> length (sample_rows j clk n vs)"
      by (simp add: length_sample_rows)
    have d': "durable_samples (db st1) =
               (if Suc ?q < 10 then durable_samples (db st)
                else samples (db st) @
                     take (Suc ?q - Suc ?q mod 10) (sample_rows j clk n vs @ [?row]))"
      using le by (simp only: d1 small tk take_append) simp
    show ?thesis
      by (simp add: append_samples_snoc v run step j1 m s1 d' sample_rows_snoc del: mod_Suc)
  qed
qed

text \<open>
  C6. From a state with a current job and no accumulated inserts, every run of
  \<^verbatim>\<open>append_sample\<close> calls returns and inserts one row per call; the pending-insert counter
  then holds the number of calls modulo 10; nothing is committed before the tenth call, and
  from the tenth call on the durable rows are the old rows and the new rows up to the last
  full ten: a commit is issued after every 10 accumulated inserts. In particular, after
  exactly 10 calls the counter is 0 and every row of the table is durable.
\<close>

theorem append_sample_commit_every_10:
  assumes "current_job_id st = Some j" and "j \<noteq> 0"
    and "pending st = None \<or> pending st = Some 0"
  shows "\<exists>st'. append_samples clk vs (st, n) = Inr (st', n + length vs)
           \<and> samples (db st') = samples (db st) @ sample_rows j clk n vs
           \<and> (vs \<noteq> [] \<longrightarrow> pending st' = Some (length vs mod 10))
           \<and> (length vs < 10 \<longrightarrow> durable_samples (db st') = durable_samples (db st))
           \<and> (10 \<le> length vs \<longrightarrow>
                 durable_samples (db st') =
                   samples (db st) @ take (length vs - length vs mod 10) (sample_rows j clk n vs))
           \<and> (length vs = 10 \<longrightarrow>
                 pending st' = Some 0 \<and> durable_samples (db st') = samples (db st'))"
proof -
  obtain st' where run: "append_samples clk vs (st, n) = Inr (st', n + length vs)"
    and p: "pending st' = (if vs = [] then pending st else Some (length vs mod 10))"
    and s: "samples (db st') = samples (db st) @ sample_rows j clk n vs"
    and d: "durable_samples (db st') =
               (if length vs < 10 then durable_samples (db st)
                else samples (db st) @ take (length vs - length vs mod 10) (sample_rows j clk n vs))"
    using append_samples_state [OF assms] by blast
  have "pending st' = Some 0 \<and> durable_samples (db st') = samples (db st')"
    if "length vs = 10"
  proof -
    from that have "vs \<noteq> []" by auto
    with that show ?thesis
      by (simp add: p s d length_sample_rows)
  qed
  then show ?thesis
    using run p s d by auto
qed

theorem append_sample_commit_every_10_witness:
  "\<exists>st'. append_samples (\<lambda>i. int i) (replicate 10 (1, 0, 1, 0))
            ((fst (Dashboard_init (\<lambda>i. int i) [] []))\<lparr>current_job_id := Some 1\<rparr>, 0) = Inr (st', 10)
         \<and> pending st' = Some 0
         \<and> length (samples (db st')) = 10
         \<and> durable_samples (db st') = samples (db st')"
proof -
  let ?st = "(fst (Dashboard_init (\<lambda>i. int i) [] []))\<lparr>current_job_id := Some 1\<rparr>"
  have j: "current_job_id ?st = Some 1" and nz: "(1::int) \<noteq> 0"
    by simp_all
  have p: "pending ?st = None \<or> pending ?st = Some 0"
    by (simp add: Dashboard_init_empty)
  have s: "samples (db (fst (Dashboard_init (\<lambda>i. int i) [] []))) = []"
    by (simp add: Dashboard_init_empty)
  from append_sample_commit_every_10 [OF j nz p, of "\<lambda>i. int i" "replicate 10 (1, 0, 1, 0)" 0]
  show ?thesis
    by (auto simp: s length_sample_rows)
qed

end
